theory Spec2Isabelle
  imports Complex_Main "HOL-Library.Word" "HOL-Library.Log_Nat"
begin

section \<open>Payment gateway aggregator: idempotency store, circuit breaker, request handler\<close>

text \<open>
  A shallow embedding of the Go sources \<^verbatim>\<open>cache/redis.go\<close>, \<^verbatim>\<open>providers/provider.go\<close>,
  \<^verbatim>\<open>providers/mtn.go\<close>, \<^verbatim>\<open>providers/airtel.go\<close> and of the final \<^verbatim>\<open>main.go\<close>
  (the handler with idempotency and circuit breaker). Mutable state (the Redis
  keys, the breakers) is passed explicitly; every error return and panic of the
  source is a value; wall-clock time and the random draws of the mock providers
  are arguments.
\<close>

subsection \<open>Time (package time)\<close>

text \<open>Instants and durations are counted in nanoseconds, as \<^verbatim>\<open>time.Duration\<close> does.\<close>

type_synonym Time = nat
type_synonym Duration = nat

definition Millisecond :: Duration where
  "Millisecond = 1000000"

definition Second :: Duration where
  "Second = 1000 * Millisecond"

definition Minute :: Duration where
  "Minute = 60 * Second"

definition Hour :: Duration where
  "Hour = 60 * Minute"

subsection \<open>Errors\<close>

text \<open>
  Go \<^verbatim>\<open>error\<close> values: the sentinels the sources compare against or receive
  (\<^verbatim>\<open>gobreaker.ErrOpenState\<close>, \<^verbatim>\<open>redis.Nil\<close>, \<^verbatim>\<open>context.DeadlineExceeded\<close>,
  \<^verbatim>\<open>context.Canceled\<close>), errors made from a text (\<^verbatim>\<open>errors.New\<close>, \<^verbatim>\<open>fmt.Errorf\<close>
  without \<^verbatim>\<open>%w\<close>) and errors wrapping another one (\<^verbatim>\<open>fmt.Errorf("...%w", err)\<close>).
  Equality of constructors is the pointer equality \<^verbatim>\<open>errCB == gobreaker.ErrOpenState\<close>
  tests; \<open>Error\<close> is the method \<^verbatim>\<open>err.Error()\<close>.
\<close>

datatype error =
    ErrOpenState
  | RedisNil
  | DeadlineExceeded
  | Canceled
  | ErrorString string
  | Wrapped string error

fun Error :: "error \<Rightarrow> string" where
  "Error ErrOpenState = ''circuit breaker is open''"
| "Error RedisNil = ''redis: nil''"
| "Error DeadlineExceeded = ''context deadline exceeded''"
| "Error Canceled = ''context canceled''"
| "Error (ErrorString s) = s"
| "Error (Wrapped prefix e) = prefix @ Error e"

text \<open>The verb \<^verbatim>\<open>%d\<close> of \<^verbatim>\<open>fmt.Sprintf\<close> on a non-negative integer.\<close>

fun Sprintf_d :: "nat \<Rightarrow> string" where
  "Sprintf_d n =
     (if n < 10 then [''0123456789'' ! n]
      else Sprintf_d (n div 10) @ [''0123456789'' ! (n mod 10)])"

declare Sprintf_d.simps [simp del]

subsection \<open>float64\<close>

text \<open>
  The finite \<^verbatim>\<open>float64\<close> values are rationals; \<open>float64_round\<close> is IEEE 754
  round-to-nearest, ties-to-even, to a 53-bit significand (the normal range: the
  operands of this program are 32-bit counters and small constants).
  \<open>ilog2 q\<close> is the binary exponent of a positive \<open>q\<close>.
\<close>

definition ilog2 :: "rat \<Rightarrow> int" where
  "ilog2 q = (let (a, b) = quotient_of q; d = bitlen a - bitlen b
              in if 2 powi d \<le> q then d else d - 1)"

definition round_half_even :: "rat \<Rightarrow> int" where
  "round_half_even x =
     (let n = \<lfloor>x\<rfloor>; d = x - of_int n
      in if d < 1 / 2 then n else if 1 / 2 < d then n + 1 else if even n then n else n + 1)"

definition float64_round :: "rat \<Rightarrow> rat" where
  "float64_round q =
     (if q = 0 then 0
      else let u = 2 powi (ilog2 \<bar>q\<bar> - 52)
           in sgn q * of_int (round_half_even (\<bar>q\<bar> / u)) * u)"

text \<open>\<^verbatim>\<open>float64(x)\<close> of a \<^verbatim>\<open>uint32\<close> is exact; the quotient is rounded once.\<close>

definition float64_of_uint32 :: "32 word \<Rightarrow> rat" where
  "float64_of_uint32 w = of_nat (unat w)"

definition float64_div :: "rat \<Rightarrow> rat \<Rightarrow> rat" where
  "float64_div x y = float64_round (x / y)"

subsection \<open>Package context\<close>

text \<open>
  A \<^verbatim>\<open>context.Context\<close> as the handler and the providers use it: an optional
  deadline, and the instant at which the inbound request is cancelled upstream
  (the client goes away), if it ever is. \<open>Done ctx t\<close> tells whether the channel
  \<^verbatim>\<open>ctx.Done()\<close> is closed at \<open>t\<close>, and if so since when and with which \<^verbatim>\<open>ctx.Err()\<close>.
\<close>

record Context =
  Deadline :: "Time option"
  CancelAt :: "Time option"

definition WithTimeout :: "Context \<Rightarrow> Time \<Rightarrow> Duration \<Rightarrow> Context" where
  "WithTimeout parent now d =
     parent\<lparr>Deadline :=
       Some (case Deadline parent of None \<Rightarrow> now + d | Some p \<Rightarrow> min p (now + d))\<rparr>"

definition Done :: "Context \<Rightarrow> Time \<Rightarrow> (Time \<times> error) option" where
  "Done ctx t =
     (case CancelAt ctx of
        Some c \<Rightarrow>
          (case Deadline ctx of
             Some d \<Rightarrow>
               if d < c then (if d \<le> t then Some (d, DeadlineExceeded) else None)
               else (if c \<le> t then Some (c, Canceled) else None)
           | None \<Rightarrow> if c \<le> t then Some (c, Canceled) else None)
      | None \<Rightarrow>
          (case Deadline ctx of
             Some d \<Rightarrow> if d \<le> t then Some (d, DeadlineExceeded) else None
           | None \<Rightarrow> None))"

subsection \<open>The circuit breaker (github.com/sony/gobreaker)\<close>

text \<open>
  Modelled from the spec: the breaker is the imported library \<^verbatim>\<open>sony/gobreaker\<close>, whose
  source is not among the repository's files. \<^verbatim>\<open>main.go\<close> fills a \<^verbatim>\<open>gobreaker.Settings\<close>,
  reads \<^verbatim>\<open>Requests\<close> and \<^verbatim>\<open>TotalFailures\<close> of a \<^verbatim>\<open>gobreaker.Counts\<close>, calls
  \<^verbatim>\<open>Execute\<close> and compares its error with \<^verbatim>\<open>gobreaker.ErrOpenState\<close>; those names are
  kept. The state machine follows the specification (Breaker Window and Breaker State
  of its data model, and its section on the circuit breaker):
  \<^item> CLOSED admits every call; after each call the outcome is added to the current
    window, and the breaker moves to OPEN when the trip predicate holds of the window;
    the window is reset once the interval has elapsed since its start;
  \<^item> OPEN refuses admission with the circuit-open signal and counts nothing; once the
    cool-down has elapsed since OPEN was entered, the next admission attempt moves the
    breaker to HALF_OPEN before it is evaluated;
  \<^item> HALF_OPEN admits at most \<open>maxRequests\<close> trial calls at a time and refuses the others
    with the circuit-open signal; a successful trial moves to CLOSED, a failed one back
    to OPEN;
  \<^item> every transition resets the window and records its instant.
  The counters are unsigned 32-bit integers, which \<^verbatim>\<open>float64(counts.Requests)\<close> converts.
\<close>

datatype State = StateClosed | StateHalfOpen | StateOpen

record Counts =
  Requests :: "32 word"
  TotalSuccesses :: "32 word"
  TotalFailures :: "32 word"

record Settings =
  Name :: string
  MaxRequests :: "32 word"
  Timeout :: Duration
  Interval :: Duration
  ReadyToTrip :: "Counts \<Rightarrow> bool"
  IsSuccessful :: "error option \<Rightarrow> bool"

text \<open>
  \<open>since\<close> is the instant of the last transition or window reset; \<open>trials\<close> counts the
  trial calls in flight while HALF_OPEN.
\<close>

record CircuitBreaker =
  name :: string
  maxRequests :: "32 word"
  timeout :: Duration
  interval :: Duration
  readyToTrip :: "Counts \<Rightarrow> bool"
  isSuccessful :: "error option \<Rightarrow> bool"
  state :: State
  counts :: Counts
  since :: Time
  trials :: "32 word"

text \<open>Modelled from the spec: an empty window, and a new breaker, CLOSED (the initial state).\<close>

definition clear :: Counts where
  "clear = \<lparr>Requests = 0, TotalSuccesses = 0, TotalFailures = 0\<rparr>"

definition NewCircuitBreaker :: "Settings \<Rightarrow> Time \<Rightarrow> CircuitBreaker" where
  "NewCircuitBreaker st now =
     \<lparr>name = Name st, maxRequests = MaxRequests st, timeout = Timeout st,
      interval = Interval st, readyToTrip = ReadyToTrip st, isSuccessful = IsSuccessful st,
      state = StateClosed, counts = clear, since = now, trials = 0\<rparr>"

text \<open>
  Modelled from the spec: a transition enters the new state, resets the window and
  records its instant.
\<close>

definition setState :: "CircuitBreaker \<Rightarrow> State \<Rightarrow> Time \<Rightarrow> CircuitBreaker" where
  "setState cb st now = cb\<lparr>state := st, counts := clear, since := now, trials := 0\<rparr>"

text \<open>
  Modelled from the spec: what the passing of time does to a breaker, looked at when a
  call arrives. A CLOSED window is reset once the interval has elapsed since its start;
  an OPEN breaker becomes HALF_OPEN once the cool-down has elapsed since it opened.
\<close>

definition currentState :: "CircuitBreaker \<Rightarrow> Time \<Rightarrow> CircuitBreaker" where
  "currentState cb now =
     (case state cb of
        StateClosed \<Rightarrow>
          if since cb + interval cb \<le> now then setState cb StateClosed now else cb
      | StateOpen \<Rightarrow>
          if since cb + timeout cb \<le> now then setState cb StateHalfOpen now else cb
      | StateHalfOpen \<Rightarrow> cb)"

text \<open>
  Modelled from the spec: admission. OPEN refuses with the circuit-open signal; HALF_OPEN
  admits a trial while fewer than \<open>maxRequests\<close> are in flight and refuses otherwise;
  CLOSED admits.
\<close>

definition admission :: "CircuitBreaker \<Rightarrow> Time \<Rightarrow> CircuitBreaker \<times> error option" where
  "admission cb now =
     (let cb1 = currentState cb now in
      case state cb1 of
        StateOpen \<Rightarrow> (cb1, Some ErrOpenState)
      | StateHalfOpen \<Rightarrow>
          if maxRequests cb1 \<le> trials cb1 then (cb1, Some ErrOpenState)
          else (cb1\<lparr>trials := trials cb1 + 1\<rparr>, None)
      | StateClosed \<Rightarrow> (cb1, None))"

text \<open>
  Modelled from the spec: recording an outcome. In CLOSED it is added to the current
  window (requests = successes + failures), and the breaker trips when the trip
  predicate holds of the window; in HALF_OPEN it is the trial's outcome.
\<close>

definition add_outcome :: "Counts \<Rightarrow> bool \<Rightarrow> Counts" where
  "add_outcome c success =
     (if success
      then c\<lparr>Requests := Requests c + 1, TotalSuccesses := TotalSuccesses c + 1\<rparr>
      else c\<lparr>Requests := Requests c + 1, TotalFailures := TotalFailures c + 1\<rparr>)"

definition record_outcome :: "CircuitBreaker \<Rightarrow> Time \<Rightarrow> bool \<Rightarrow> CircuitBreaker" where
  "record_outcome cb now success =
     (case state cb of
        StateClosed \<Rightarrow>
          (let cb1 = currentState cb now;
               cb2 = cb1\<lparr>counts := add_outcome (counts cb1) success\<rparr>
           in if readyToTrip cb2 (counts cb2) then setState cb2 StateOpen now else cb2)
      | StateHalfOpen \<Rightarrow>
          if success then setState cb StateClosed now else setState cb StateOpen now
      | StateOpen \<Rightarrow> cb)"

text \<open>
  Modelled from the spec, and from the handler's comment on \<^verbatim>\<open>Execute\<close> (open: fails at once
  with \<^verbatim>\<open>gobreaker.ErrOpenState\<close>; closed: runs the request function; half-open: permits a
  trial). \<^verbatim>\<open>Execute(req)\<close>: admission, then the request function, then the outcome as the
  breaker's classifier \<open>isSuccessful\<close> reads the returned error. The result holds the
  breaker after the call, what \<^verbatim>\<open>Execute\<close> returns, the instant it returns, and whether
  the request function was run.
\<close>

definition Execute ::
  "CircuitBreaker \<Rightarrow> Time \<Rightarrow> (Time \<Rightarrow> ('a option \<times> error option) \<times> Time) \<Rightarrow>
     CircuitBreaker \<times> ('a option \<times> error option) \<times> Time \<times> bool" where
  "Execute cb now req =
     (case admission cb now of
        (cb1, Some e) \<Rightarrow> (cb1, (None, Some e), now, False)
      | (cb1, None) \<Rightarrow>
          (case req now of
             ((result, err), t) \<Rightarrow>
               (record_outcome cb1 t (isSuccessful cb1 err), (result, err), t, True)))"

subsection \<open>providers/provider.go\<close>

text \<open>\<^verbatim>\<open>Amount\<close> is a \<^verbatim>\<open>float64\<close> that no code path computes with.\<close>

record PaymentRequest =
  TransactionID :: string
  Amount :: rat
  Currency :: string
  ProviderKey :: string

record PaymentResponse =
  Status :: string
  ReferenceID :: string
  ProviderName :: string
  IsIdempotent :: bool
  Message :: string

text \<open>
  The values a call draws from the global \<^verbatim>\<open>math/rand\<close> source: \<^verbatim>\<open>rand.Intn(600)\<close>
  and \<^verbatim>\<open>rand.Float64()\<close>.
\<close>

record Rand =
  Intn :: nat
  Float64 :: rat

text \<open>
  The interface \<^verbatim>\<open>PaymentProvider\<close>. \<^verbatim>\<open>ProcessPayment(ctx, req)\<close> returns a pointer
  that may be nil and an error that may be nil; the model also takes the draws and
  the instant of the call, and returns the instant at which the call returns.
\<close>

record PaymentProvider =
  Name :: string
  ProcessPayment ::
    "Rand \<Rightarrow> Context \<Rightarrow> Time \<Rightarrow> PaymentRequest \<Rightarrow> (PaymentResponse option \<times> error option) \<times> Time"

subsection \<open>providers/mtn.go\<close>

text \<open>
  The file holds two texts of the MTN provider. The first (lines 1 to 53) fails
  one call in ten and returns the FAILED response with a nil error. The
  \<^verbatim>\<open>select\<close> takes the \<^verbatim>\<open>ctx.Done()\<close> branch when the context is done no later than
  the timer fires.
\<close>

definition MTN_ProcessPayment ::
  "Rand \<Rightarrow> Context \<Rightarrow> Time \<Rightarrow> PaymentRequest \<Rightarrow> (PaymentResponse option \<times> error option) \<times> Time" where
  "MTN_ProcessPayment rnd ctx now req =
     (let delay = (Intn rnd + 200) * Millisecond in
      case Done ctx (now + delay) of
        Some (t, e) \<Rightarrow> ((None, Some e), max now t)
      | None \<Rightarrow>
          if Float64 rnd < float64_round (10 / 100)
          then ((Some \<lparr>Status = ''FAILED'', ReferenceID = ''N/A'', ProviderName = ''MTN_MOMO'',
                        IsIdempotent = False,
                        Message = ''Provider internal server error (simulated 500)''\<rparr>,
                 None), now + delay)
          else ((Some \<lparr>Status = ''SUCCESS'', ReferenceID = ''MTN-'' @ Sprintf_d (now + delay),
                        ProviderName = ''MTN_MOMO'', IsIdempotent = False,
                        Message = ''Transaction processed successfully.''\<rparr>,
                 None), now + delay))"

definition NewMTNProvider :: PaymentProvider where
  "NewMTNProvider = \<lparr>Name = ''MTN_MOMO'', ProcessPayment = MTN_ProcessPayment\<rparr>"

text \<open>
  The second text (lines 54 to 111) fails four calls in five and returns the
  FAILED response together with a non-nil error.
\<close>

definition MTN_ProcessPayment_2 ::
  "Rand \<Rightarrow> Context \<Rightarrow> Time \<Rightarrow> PaymentRequest \<Rightarrow> (PaymentResponse option \<times> error option) \<times> Time" where
  "MTN_ProcessPayment_2 rnd ctx now req =
     (let delay = (Intn rnd + 200) * Millisecond in
      case Done ctx (now + delay) of
        Some (t, e) \<Rightarrow> ((None, Some e), max now t)
      | None \<Rightarrow>
          if Float64 rnd < float64_round (80 / 100)
          then (let res = \<lparr>Status = ''FAILED'', ReferenceID = ''N/A'', ProviderName = ''MTN_MOMO'',
                             IsIdempotent = False,
                             Message = ''Provider internal server error (simulated 500)''\<rparr>
                in ((Some res, Some (ErrorString (''provider failure: '' @ Message res))),
                    now + delay))
          else ((Some \<lparr>Status = ''SUCCESS'', ReferenceID = ''MTN-'' @ Sprintf_d (now + delay),
                        ProviderName = ''MTN_MOMO'', IsIdempotent = False,
                        Message = ''Transaction processed successfully.''\<rparr>,
                 None), now + delay))"

definition NewMTNProvider_2 :: PaymentProvider where
  "NewMTNProvider_2 = \<lparr>Name = ''MTN_MOMO'', ProcessPayment = MTN_ProcessPayment_2\<rparr>"

subsection \<open>providers/airtel.go\<close>

definition Airtel_ProcessPayment ::
  "Rand \<Rightarrow> Context \<Rightarrow> Time \<Rightarrow> PaymentRequest \<Rightarrow> (PaymentResponse option \<times> error option) \<times> Time" where
  "Airtel_ProcessPayment rnd ctx now req =
     (let delay = (Intn rnd + 200) * Millisecond in
      case Done ctx (now + delay) of
        Some (t, e) \<Rightarrow> ((None, Some e), max now t)
      | None \<Rightarrow>
          if Float64 rnd < float64_round (80 / 100)
          then (let res = \<lparr>Status = ''FAILED'', ReferenceID = ''N/A'',
                             ProviderName = ''AIRTEL_MONEY'', IsIdempotent = False,
                             Message = ''Airtel provider internal server error (simulated 500)''\<rparr>
                in ((Some res, Some (ErrorString (''provider failure: '' @ Message res))),
                    now + delay))
          else ((Some \<lparr>Status = ''SUCCESS'', ReferenceID = ''AIRTEL-'' @ Sprintf_d (now + delay),
                        ProviderName = ''AIRTEL_MONEY'', IsIdempotent = False,
                        Message = ''Transaction processed successfully via Airtel.''\<rparr>,
                 None), now + delay))"

definition NewAirtelProvider :: PaymentProvider where
  "NewAirtelProvider = \<lparr>Name = ''AIRTEL_MONEY'', ProcessPayment = Airtel_ProcessPayment\<rparr>"

subsection \<open>cache/redis.go\<close>

definition StatusInProgress :: string where
  "StatusInProgress = ''IN_PROGRESS''"

definition StatusCompleted :: string where
  "StatusCompleted = ''COMPLETED''"

definition InProgressExpiry :: Duration where
  "InProgressExpiry = 10 * Second"

definition CompletedExpiry :: Duration where
  "CompletedExpiry = 24 * Hour"

text \<open>
  Modelled from the spec: the Redis server and the go-redis client are external. The
  specification describes the store as an atomic mapping from string keys to string
  values with a time-to-live per key, offering \<^verbatim>\<open>setIfAbsent(key, value, ttl) -> bool\<close>,
  \<^verbatim>\<open>get(key) -> value|absent\<close> and \<^verbatim>\<open>set(key, value, ttl)\<close>. A key holds its value and
  the instant it expires; \<open>fault = Some e\<close> is a server that cannot be reached, where
  every command fails with \<open>e\<close>. \<^verbatim>\<open>Get\<close> reports an absent key as the error \<^verbatim>\<open>redis.Nil\<close>.
\<close>

record RedisStore =
  entries :: "string \<Rightarrow> (string \<times> Time) option"
  fault :: "error option"

definition live :: "RedisStore \<Rightarrow> Time \<Rightarrow> string \<Rightarrow> string option" where
  "live r now key =
     (case entries r key of
        Some (v, expiry) \<Rightarrow> if now < expiry then Some v else None
      | None \<Rightarrow> None)"

definition client_Get :: "RedisStore \<Rightarrow> Time \<Rightarrow> string \<Rightarrow> error + string" where
  "client_Get r now key =
     (case fault r of
        Some e \<Rightarrow> Inl e
      | None \<Rightarrow> (case live r now key of None \<Rightarrow> Inl RedisNil | Some v \<Rightarrow> Inr v))"

definition client_SetNX ::
  "RedisStore \<Rightarrow> Time \<Rightarrow> string \<Rightarrow> string \<Rightarrow> Duration \<Rightarrow> (error + bool) \<times> RedisStore" where
  "client_SetNX r now key v ttl =
     (case fault r of
        Some e \<Rightarrow> (Inl e, r)
      | None \<Rightarrow>
          (case live r now key of
             None \<Rightarrow> (Inr True, r\<lparr>entries := (entries r)(key \<mapsto> (v, now + ttl))\<rparr>)
           | Some _ \<Rightarrow> (Inr False, r)))"

definition client_Set ::
  "RedisStore \<Rightarrow> Time \<Rightarrow> string \<Rightarrow> string \<Rightarrow> Duration \<Rightarrow> error option \<times> RedisStore" where
  "client_Set r now key v ttl =
     (case fault r of
        Some e \<Rightarrow> (Some e, r)
      | None \<Rightarrow> (None, r\<lparr>entries := (entries r)(key \<mapsto> (v, now + ttl))\<rparr>))"

text \<open>
  \<^verbatim>\<open>CheckOrSetInProgress\<close> makes two client calls. \<open>admit_step\<close> is one of them, from the
  place \<open>admit_pc\<close> the call has reached; the function is both steps in a row.
\<close>

datatype admit_pc = AtGet | AtSetNX | Returned "bool \<times> error option"

definition admit_step :: "string \<Rightarrow> Time \<Rightarrow> admit_pc \<Rightarrow> RedisStore \<Rightarrow> admit_pc \<times> RedisStore" where
  "admit_step transactionID now pc r =
     (let key = ''txn:'' @ transactionID in
      case pc of
        AtGet \<Rightarrow>
          if client_Get r now key = Inr StatusCompleted then (Returned (True, None), r)
          else (AtSetNX, r)
      | AtSetNX \<Rightarrow>
          (case client_SetNX r now key StatusInProgress InProgressExpiry of
             (Inl err, r') \<Rightarrow> (Returned (False, Some (Wrapped ''redis SETNX error: '' err)), r')
           | (Inr set', r') \<Rightarrow>
               if \<not> set'
               then (Returned (True, Some (ErrorString ''transaction already in progress'')), r')
               else (Returned (False, None), r'))
      | Returned x \<Rightarrow> (Returned x, r))"

definition CheckOrSetInProgress ::
  "RedisStore \<Rightarrow> Time \<Rightarrow> string \<Rightarrow> (bool \<times> error option) \<times> RedisStore" where
  "CheckOrSetInProgress r now transactionID =
     (let key = ''txn:'' @ transactionID in
      if client_Get r now key = Inr StatusCompleted then ((True, None), r)
      else
        (case client_SetNX r now key StatusInProgress InProgressExpiry of
           (Inl err, r') \<Rightarrow> ((False, Some (Wrapped ''redis SETNX error: '' err)), r')
         | (Inr set', r') \<Rightarrow>
             if \<not> set'
             then ((True, Some (ErrorString ''transaction already in progress'')), r')
             else ((False, None), r')))"

definition SetCompleted :: "RedisStore \<Rightarrow> Time \<Rightarrow> string \<Rightarrow> error option \<times> RedisStore" where
  "SetCompleted r now transactionID =
     client_Set r now (''txn:'' @ transactionID) StatusCompleted CompletedExpiry"

definition CheckCompleted :: "RedisStore \<Rightarrow> Time \<Rightarrow> string \<Rightarrow> bool \<times> error option" where
  "CheckCompleted r now transactionID =
     (case client_Get r now (''txn:'' @ transactionID) of
        Inl err \<Rightarrow>
          if err = RedisNil then (False, None)
          else (False, Some (Wrapped ''redis GET error: '' err))
      | Inr status \<Rightarrow> (status = StatusCompleted, None))"

text \<open>
  The three classifications of the idempotency check, as the values
  \<^verbatim>\<open>CheckOrSetInProgress\<close> returns for them.
\<close>

definition NEW :: "bool \<times> error option" where
  "NEW = (False, None)"

definition DUPLICATE_COMPLETED :: "bool \<times> error option" where
  "DUPLICATE_COMPLETED = (True, None)"

definition DUPLICATE_IN_PROGRESS :: "bool \<times> error option" where
  "DUPLICATE_IN_PROGRESS = (True, Some (ErrorString ''transaction already in progress''))"

text \<open>
  Two calls of \<^verbatim>\<open>CheckOrSetInProgress\<close> for the same transaction id running
  concurrently: each client call is atomic at the server, and a schedule says which
  caller (\<open>False\<close> the first, \<open>True\<close> the second) makes its next client call at which
  instant.
\<close>

fun run_admits ::
  "string \<Rightarrow> (bool \<times> Time) list \<Rightarrow> admit_pc \<times> admit_pc \<times> RedisStore \<Rightarrow>
     admit_pc \<times> admit_pc \<times> RedisStore" where
  "run_admits tid [] s = s"
| "run_admits tid ((who, now) # sched) (pc1, pc2, r) =
     (if who
      then (case admit_step tid now pc2 r of (pc2', r') \<Rightarrow> run_admits tid sched (pc1, pc2', r'))
      else (case admit_step tid now pc1 r of (pc1', r') \<Rightarrow> run_admits tid sched (pc1', pc2, r')))"

subsection \<open>main.go\<close>

text \<open>
  The \<^verbatim>\<open>Aggregator\<close>. The \<open>Store\<close> is the Redis server as the client reaches it, and
  \<open>Breakers\<close> holds the breakers the map's pointers lead to: \<^verbatim>\<open>Execute\<close> mutates the
  breaker in place, which the model writes back under its key.
\<close>

record Aggregator =
  Providers :: "string \<Rightarrow> PaymentProvider option"
  Store :: RedisStore
  Breakers :: "string \<Rightarrow> CircuitBreaker option"

text \<open>
  The breaker settings of \<^verbatim>\<open>newAggregator\<close>, with its two function literals. The
  constant \<^verbatim>\<open>0.6\<close> is the \<^verbatim>\<open>float64\<close> nearest to six tenths.
\<close>

definition settings :: Settings where
  "settings =
     \<lparr>Settings.Name = ''MTN-Breaker'',
      MaxRequests = 1,
      Timeout = 30 * Second,
      Interval = 5 * Second,
      ReadyToTrip = (\<lambda>counts.
        if Requests counts < 3 then False
        else (let failureRatio =
                    float64_div (float64_of_uint32 (TotalFailures counts))
                                (float64_of_uint32 (Requests counts))
              in float64_round (6 / 10) \<le> failureRatio)),
      IsSuccessful = (\<lambda>err. err = None)\<rparr>"

text \<open>
  \<^verbatim>\<open>newAggregator\<close> connects to the Redis server at \<^verbatim>\<open>localhost:6379\<close> (its state is the
  argument) and creates the breaker at the instant \<open>now\<close>.
\<close>

definition newAggregator :: "RedisStore \<Rightarrow> Time \<Rightarrow> Aggregator" where
  "newAggregator redisStore now =
     (let breakerMTN = NewCircuitBreaker settings now in
      \<lparr>Providers = [''MTN'' \<mapsto> NewMTNProvider],
       Store = redisStore,
       Breakers = [''MTN'' \<mapsto> breakerMTN]\<rparr>)"

text \<open>
  An inbound request: the method, the body as \<^verbatim>\<open>json.Decode\<close> reads it (\<open>None\<close> when
  decoding fails) and \<^verbatim>\<open>r.Context()\<close>.
\<close>

record Request =
  Method :: string
  Body :: "PaymentRequest option"
  RContext :: Context

text \<open>
  What the handler leaves behind: the status written with the JSON body (a map of
  strings or the payment response), or a panic (a nil pointer dereference, which
  \<^verbatim>\<open>net/http\<close> recovers from by dropping the connection).
\<close>

datatype ResponseBody =
    Json_map "(string \<times> string) list"
  | Json_response PaymentResponse

datatype Outcome = Written nat ResponseBody | Panicked

text \<open>
  The calls the handler makes on its collaborators and the lines it logs, in order;
  a provider call is listed with the context it was given and what it returned.
\<close>

datatype Event =
    LogPrintf string
  | CallCheckOrSetInProgress string
  | CallProcessPayment string Context PaymentRequest "PaymentResponse option \<times> error option"
  | CallSetCompleted string

definition StatusOK :: nat where
  "StatusOK = 200"

definition StatusBadRequest :: nat where
  "StatusBadRequest = 400"

definition StatusNotFound :: nat where
  "StatusNotFound = 404"

definition StatusMethodNotAllowed :: nat where
  "StatusMethodNotAllowed = 405"

definition StatusConflict :: nat where
  "StatusConflict = 409"

definition StatusTooEarly :: nat where
  "StatusTooEarly = 425"

definition StatusInternalServerError :: nat where
  "StatusInternalServerError = 500"

definition StatusServiceUnavailable :: nat where
  "StatusServiceUnavailable = 503"

text \<open>
  \<^verbatim>\<open>PayHandler\<close>, branch by branch as in the source, in two parts. \<open>PayHandler_provider\<close>
  is the second part of the function body, from the comment
  \<^verbatim>\<open>Provider Routing & Circuit Breaker Lookup\<close> to the end: it takes the aggregator as the
  idempotency check left it and the events so far. A missing breaker leaves \<^verbatim>\<open>breaker\<close>
  nil, and \<^verbatim>\<open>breaker.Execute\<close> then panics; a nil response with a nil error panics at
  \<^verbatim>\<open>res.Status\<close>. The store is consulted at the instant \<open>now\<close> of the request and
  completed at the instant the provider call returns.
\<close>

definition PayHandler_provider ::
  "Aggregator \<Rightarrow> Rand \<Rightarrow> Time \<Rightarrow> Request \<Rightarrow> PaymentRequest \<Rightarrow> Event list \<Rightarrow>
     Outcome \<times> Aggregator \<times> Event list" where
  "PayHandler_provider a1 rnd now r req ev1 =
     (let providerName = ''MTN'' in
      case Providers a1 providerName of
        None \<Rightarrow>
          (Written StatusNotFound
             (Json_map [(''error'', ''Provider '' @ providerName @ '' not found'')]),
           a1, ev1)
      | Some provider \<Rightarrow>
          let ev2 = ev1 @
                (case Breakers a1 providerName of
                   None \<Rightarrow>
                     [LogPrintf (''Warning: No circuit breaker found for '' @ providerName)]
                 | Some _ \<Rightarrow> []);
              ctx = WithTimeout (RContext r) now (1 * Second);
              ev3 = ev2 @
                [LogPrintf (''Starting transaction '' @ TransactionID req @
                            '' via '' @ PaymentProvider.Name provider)]
          in
          case Breakers a1 providerName of
            None \<Rightarrow> (Panicked, a1, ev3)
          | Some breaker \<Rightarrow>
              (case Execute breaker now (\<lambda>t. ProcessPayment provider rnd ctx t req) of
                 (breaker', (result, errCB), t', invoked) \<Rightarrow>
                   let a2 = a1\<lparr>Breakers := (Breakers a1)(providerName \<mapsto> breaker')\<rparr>;
                       ev4 = ev3 @
                         (if invoked
                          then [CallProcessPayment (PaymentProvider.Name provider)
                                  ctx req (result, errCB)]
                          else [])
                   in
                   if errCB = Some ErrOpenState
                   then
                     (Written StatusServiceUnavailable
                        (Json_map
                           [(''error'', ''Service Unavailable''),
                            (''message'',
                             ''Provider '' @ PaymentProvider.Name provider @
                             '' is currently experiencing high failure rates and has been temporarily taken offline.'')]),
                      a2,
                      ev4 @
                        [LogPrintf (''Circuit Breaker OPEN for '' @
                                    PaymentProvider.Name provider @ ''. Bypassing request.'')])
                   else
                     case errCB of
                       Some e \<Rightarrow>
                         (Written StatusInternalServerError
                            (Json_map [(''error'', ''Processing error: '' @ Error e)]),
                          a2, ev4 @ [LogPrintf (''Provider/CB Error: '' @ Error e)])
                     | None \<Rightarrow>
                         (case result of
                            None \<Rightarrow> (Panicked, a2, ev4)
                          | Some res \<Rightarrow>
                              if Status res = ''SUCCESS''
                              then
                                (case SetCompleted (Store a2) t' (TransactionID req) of
                                   (err2, store2) \<Rightarrow>
                                     (Written StatusOK
                                        (Json_response (res\<lparr>IsIdempotent := True\<rparr>)),
                                      a2\<lparr>Store := store2\<rparr>,
                                      ev4 @ [CallSetCompleted (TransactionID req)] @
                                        (case err2 of
                                           Some e \<Rightarrow>
                                             [LogPrintf
                                                (''Warning: Failed to set transaction '' @
                                                 TransactionID req @
                                                 '' as COMPLETED in Redis: '' @ Error e)]
                                         | None \<Rightarrow> [])))
                              else (Written StatusOK (Json_response res), a2, ev4))))"

definition PayHandler ::
  "Aggregator \<Rightarrow> Rand \<Rightarrow> Time \<Rightarrow> Request \<Rightarrow> Outcome \<times> Aggregator \<times> Event list" where
  "PayHandler a rnd now r =
     (if Method r \<noteq> ''POST''
      then (Written StatusMethodNotAllowed (Json_map [(''error'', ''Method Not Allowed'')]), a, [])
      else
        case Body r of
          None \<Rightarrow>
            (Written StatusBadRequest (Json_map [(''error'', ''Invalid Request Body'')]), a, [])
        | Some req \<Rightarrow>
            (case CheckOrSetInProgress (Store a) now (TransactionID req) of
               ((isDuplicate, err), store1) \<Rightarrow>
                 let a1 = a\<lparr>Store := store1\<rparr>;
                     ev1 = [CallCheckOrSetInProgress (TransactionID req)]
                 in
                 if (case err of
                       Some e \<Rightarrow> Error e = ''transaction already in progress''
                     | None \<Rightarrow> False)
                 then
                   (Written StatusTooEarly
                      (Json_map
                         [(''error'', ''Duplicate transaction ID detected''),
                          (''message'',
                           ''A transaction with this ID is currently being processed. Please wait.'')]),
                    a1, ev1)
                 else if isDuplicate
                 then
                   (Written StatusConflict
                      (Json_map
                         [(''error'', ''Duplicate transaction ID detected''),
                          (''message'',
                           ''This transaction ID has already been successfully completed.'')]),
                    a1, ev1)
                 else PayHandler_provider a1 rnd now r req ev1))"

text \<open>
  The server handling requests one after the other: each comes with the draws of its
  provider call and the instant it arrives.
\<close>

fun serve :: "Aggregator \<Rightarrow> (Rand \<times> Time \<times> Request) list \<Rightarrow> Aggregator" where
  "serve a [] = a"
| "serve a ((rnd, now, r) # rs) = serve (fst (snd (PayHandler a rnd now r))) rs"

text \<open>
  Modelled from the spec: a sequence of calls through one breaker, each with the instant
  it is made and whether it succeeds (a call takes no time here).
\<close>

fun feed :: "CircuitBreaker \<Rightarrow> (Time \<times> bool) list \<Rightarrow> CircuitBreaker" where
  "feed cb [] = cb"
| "feed cb ((t, ok) # xs) =
     (case admission cb t of
        (cb1, Some e) \<Rightarrow> feed cb1 xs
      | (cb1, None) \<Rightarrow> feed (record_outcome cb1 t ok) xs)"

text \<open>
  What the proofs about concurrent runs speak of: a caller that has not returned yet;
  an answer that is one of the three classifications; a key holding an IN_PROGRESS
  lease that outlasts the lease period started at \<open>t0\<close>; a schedule whose steps all fall
  within that period; and the two invariants of the runs.
\<close>

definition pending :: "admit_pc \<Rightarrow> bool" where
  "pending pc = (pc = AtGet \<or> pc = AtSetNX)"

definition lease_held :: "RedisStore \<Rightarrow> string \<Rightarrow> Time \<Rightarrow> bool" where
  "lease_held r key t0 =
     (case entries r key of
        Some (v, expiry) \<Rightarrow> v = StatusInProgress \<and> t0 + InProgressExpiry \<le> expiry
      | None \<Rightarrow> False)"

definition within_lease :: "Time \<Rightarrow> (bool \<times> Time) list \<Rightarrow> bool" where
  "within_lease t0 sched = list_all (\<lambda>(who, t). t0 \<le> t \<and> t < t0 + InProgressExpiry) sched"

definition classified :: "admit_pc \<Rightarrow> bool" where
  "classified pc =
     (case pc of
        Returned x \<Rightarrow> x = NEW \<or> x = DUPLICATE_IN_PROGRESS \<or> x = DUPLICATE_COMPLETED
      | _ \<Rightarrow> True)"

definition no_two_new :: "string \<Rightarrow> Time \<Rightarrow> admit_pc \<times> admit_pc \<times> RedisStore \<Rightarrow> bool" where
  "no_two_new key t0 s =
     (case s of (pc1, pc2, r) \<Rightarrow>
        \<not> (pc1 = Returned NEW \<and> pc2 = Returned NEW)
        \<and> (if pc1 = Returned NEW \<or> pc2 = Returned NEW then lease_held r key t0 else True))"

definition one_new :: "string \<Rightarrow> Time \<Rightarrow> admit_pc \<times> admit_pc \<times> RedisStore \<Rightarrow> bool" where
  "one_new key t0 s =
     (case s of (pc1, pc2, r) \<Rightarrow>
        fault r = None \<and>
        ((pending pc1 \<and> pending pc2 \<and> live r t0 key = None)
         \<or> (pc1 = Returned NEW \<and> pending pc2 \<and> lease_held r key t0)
         \<or> (pending pc1 \<and> pc2 = Returned NEW \<and> lease_held r key t0)
         \<or> (pc1 = Returned NEW \<and> pc2 = Returned DUPLICATE_IN_PROGRESS)
         \<or> (pc1 = Returned DUPLICATE_IN_PROGRESS \<and> pc2 = Returned NEW)))"

section \<open>Properties\<close>

subsection \<open>Rounding to float64\<close>

lemma bitlen_powi_bounds:
  assumes "0 < a"
  shows "(2::rat) powi (bitlen a - 1) \<le> of_int a" "of_int a < (2::rat) powi (bitlen a)"
proof -
  from bitlen_bounds[OF assms] have l: "2 ^ nat (bitlen a - 1) \<le> a" and u: "a < 2 ^ nat (bitlen a)"
    by auto
  have p: "1 \<le> bitlen a" using assms by (auto simp: bitlen_alt_def)
  have "(2::rat) powi (bitlen a - 1) = of_int (2 ^ nat (bitlen a - 1))"
    using p by (simp add: power_int_def)
  also have "\<dots> \<le> of_int a" using l by (simp only: of_int_le_iff)
  finally show "(2::rat) powi (bitlen a - 1) \<le> of_int a" .
  have "(of_int a :: rat) < of_int (2 ^ nat (bitlen a))" using u by (simp only: of_int_less_iff)
  also have "\<dots> = 2 powi (bitlen a)" using p by (simp add: power_int_def)
  finally show "of_int a < (2::rat) powi (bitlen a)" .
qed

lemma ilog2_bounds:
  assumes "0 < q"
  shows "2 powi (ilog2 q) \<le> q \<and> q < 2 powi (ilog2 q + 1)"
proof -
  obtain a b where ab: "quotient_of q = (a, b)" by (cases "quotient_of q")
  then have b: "0 < b" and q: "q = of_int a / of_int b"
    using quotient_of_denom_pos quotient_of_div by auto
  with assms have a: "0 < a" by (simp add: zero_less_divide_iff)
  let ?d = "bitlen a - bitlen b"
  note A = bitlen_powi_bounds[OF a] and B = bitlen_powi_bounds[OF b]
  have bpos: "(0::rat) < of_int b" using b by simp
  have "q < 2 powi (bitlen a) / 2 powi (bitlen b - 1)"
    unfolding q using A(2) B(1) bpos
    by (intro frac_less) (auto simp: a less_imp_le)
  also have "\<dots> = 2 powi (?d + 1)"
    by (simp add: power_int_diff[symmetric] algebra_simps)
  finally have up: "q < 2 powi (?d + 1)" .
  have "2 powi (?d - 1) = (2::rat) powi (bitlen a - 1) / 2 powi (bitlen b)"
    by (simp add: power_int_diff[symmetric] algebra_simps)
  also have "\<dots> \<le> q"
    unfolding q using A(1) B(2) bpos
    by (intro frac_le) (use a in \<open>auto simp: less_imp_le\<close>)
  finally have lo: "2 powi (?d - 1) \<le> q" .
  show ?thesis
  proof (cases "2 powi ?d \<le> q")
    case True
    then have "ilog2 q = ?d" by (simp add: ilog2_def ab)
    with True up show ?thesis by simp
  next
    case False
    then have "ilog2 q = ?d - 1" by (simp add: ilog2_def ab)
    with False lo show ?thesis by simp
  qed
qed

lemma round_half_even_lower: "\<lfloor>x\<rfloor> \<le> round_half_even x"
  by (simp add: round_half_even_def Let_def)

lemma round_half_even_upper: "round_half_even x \<le> \<lceil>x\<rceil>"
proof (cases "x = of_int \<lfloor>x\<rfloor>")
  case True
  then show ?thesis by (simp add: round_half_even_def Let_def)
next
  case False
  then have "\<lceil>x\<rceil> = \<lfloor>x\<rfloor> + 1" by (simp add: ceiling_altdef)
  then show ?thesis by (simp add: round_half_even_def Let_def)
qed

lemma float64_round_pos:
  "0 < q \<Longrightarrow> float64_round q =
     of_int (round_half_even (q / 2 powi (ilog2 q - 52))) * 2 powi (ilog2 q - 52)"
  by (simp add: float64_round_def Let_def)

lemma float64_round_binade:
  assumes "0 < q"
  shows "2 powi (ilog2 q) \<le> float64_round q" "float64_round q \<le> 2 powi (ilog2 q + 1)"
proof -
  let ?e = "ilog2 q"
  let ?u = "(2::rat) powi (?e - 52)"
  have u: "0 < ?u" by (simp add: zero_less_power_int)
  from ilog2_bounds[OF assms] have lo: "2 powi ?e \<le> q" and hi: "q < 2 powi (?e + 1)" by auto
  have e1: "(2::rat) powi ?e = 2 ^ 52 * ?u"
    by (simp add: power_int_diff)
  have e2: "(2::rat) powi (?e + 1) = 2 ^ 53 * ?u"
    by (simp add: power_int_diff power_int_add)
  have "(2::rat) ^ 52 \<le> q / ?u" using lo u e1 by (simp add: pos_le_divide_eq)
  then have "(of_int (2 ^ 52) :: rat) \<le> q / ?u" by simp
  then have "2 ^ 52 \<le> \<lfloor>q / ?u\<rfloor>" by (simp only: le_floor_iff)
  with round_half_even_lower[of "q / ?u"] have "2 ^ 52 \<le> round_half_even (q / ?u)" by linarith
  then have "(of_int (2 ^ 52) :: rat) \<le> of_int (round_half_even (q / ?u))"
    by (simp only: of_int_le_iff)
  from mult_right_mono[OF this less_imp_le[OF u]]
  have "2 ^ 52 * ?u \<le> of_int (round_half_even (q / ?u)) * ?u" by simp
  then show "2 powi ?e \<le> float64_round q"
    by (simp only: float64_round_pos[OF assms] e1)
  have "q / ?u \<le> 2 ^ 53" using hi u e2 by (simp add: pos_divide_le_eq less_imp_le)
  then have "q / ?u \<le> of_int (2 ^ 53)" by simp
  then have "\<lceil>q / ?u\<rceil> \<le> 2 ^ 53" by (simp only: ceiling_le_iff)
  with round_half_even_upper[of "q / ?u"] have "round_half_even (q / ?u) \<le> 2 ^ 53" by linarith
  then have "(of_int (round_half_even (q / ?u)) :: rat) \<le> of_int (2 ^ 53)"
    by (simp only: of_int_le_iff)
  from mult_right_mono[OF this less_imp_le[OF u]]
  have "of_int (round_half_even (q / ?u)) * ?u \<le> 2 ^ 53 * ?u" by simp
  then show "float64_round q \<le> 2 powi (?e + 1)"
    by (simp only: float64_round_pos[OF assms] e2)
qed

lemma float64_0_6: "float64_round (6 / 10) = 5404319552844595 / 2 ^ 53"
  by code_simp

lemma ilog2_ge:
  assumes "0 < q" "2 powi k \<le> q"
  shows "k \<le> ilog2 q"
proof (rule ccontr)
  assume "\<not> k \<le> ilog2 q"
  then have "ilog2 q + 1 \<le> k" by simp
  then have "(2::rat) powi (ilog2 q + 1) \<le> 2 powi k"
    by (intro power_int_increasing) simp_all
  also note assms(2)
  finally have "2 powi (ilog2 q + 1) \<le> q" .
  moreover from ilog2_bounds[OF assms(1)] have "q < 2 powi (ilog2 q + 1)" by (rule conjunct2)
  ultimately show False by linarith
qed

lemma ilog2_le:
  assumes "0 < q" "q < 2 powi (k + 1)"
  shows "ilog2 q \<le> k"
proof (rule ccontr)
  assume "\<not> ilog2 q \<le> k"
  then have "k + 1 \<le> ilog2 q" by simp
  then have "(2::rat) powi (k + 1) \<le> 2 powi (ilog2 q)"
    by (intro power_int_increasing) simp_all
  also from ilog2_bounds[OF assms(1)] have "2 powi (ilog2 q) \<le> q" by (rule conjunct1)
  finally have "2 powi (k + 1) \<le> q" .
  then show False using assms(2) by linarith
qed

lemma float64_round_half_binade:
  assumes "1 / 2 \<le> q" "q < 1"
  shows "float64_round q = of_int (round_half_even (q * 2 ^ 53)) / 2 ^ 53"
proof -
  have q: "0 < q" using assms by simp
  have "-1 \<le> ilog2 q" using assms(1) by (intro ilog2_ge[OF q]) simp
  moreover have "ilog2 q \<le> -1" using assms(2) by (intro ilog2_le[OF q]) simp
  ultimately have "ilog2 q = -1" by simp
  then show ?thesis
    by (simp add: float64_round_pos[OF q] power_int_minus field_simps)
qed

lemma ratio_gap:
  fixes x y :: rat
  assumes "y \<le> 3 / 5 - x / 5" "1 / 4294967296 < x"
  shows "y * 2 ^ 53 \<le> 5404319552425165" "y < 1"
  using assms by simp_all

lemma float64_ratio_ge_0_6:
  fixes f r :: nat
  assumes r: "0 < r" "r < 2 ^ 32"
  shows "(float64_round (6 / 10) \<le> float64_round (of_nat f / of_nat r)) = (3 * r \<le> 5 * f)"
proof (cases "f = 0")
  case True
  have "float64_round 0 = 0" by (simp add: float64_round_def)
  with True r show ?thesis unfolding float64_0_6 by simp
next
  case False
  let ?q = "of_nat f / of_nat r :: rat"
  let ?c = "5404319552844595 / 2 ^ 53 :: rat"
  have q: "0 < ?q" using False r by simp
  note lo = float64_round_binade(1)[OF q] and hi = float64_round_binade(2)[OF q]
  from ilog2_bounds[OF q] have qlo: "2 powi (ilog2 ?q) \<le> ?q" and qhi: "?q < 2 powi (ilog2 ?q + 1)"
    by auto
  show ?thesis
  proof (cases "3 * r \<le> 5 * f")
    case True
    then have "(of_nat (3 * r) :: rat) \<le> of_nat (5 * f)" by (simp only: of_nat_le_iff)
    then have q35: "3 / 5 \<le> ?q" using r by (simp add: field_simps)
    have "?c \<le> float64_round ?q"
    proof (cases "?q < 1")
      case True
      have "(5404319552844595 :: rat) \<le> ?q * 2 ^ 53" using q35 by simp
      then have "(of_int 5404319552844595 :: rat) \<le> ?q * 2 ^ 53" by simp
      then have "5404319552844595 \<le> \<lfloor>?q * 2 ^ 53\<rfloor>" by (simp only: le_floor_iff)
      with round_half_even_lower[of "?q * 2 ^ 53"]
      have "5404319552844595 \<le> round_half_even (?q * 2 ^ 53)" by linarith
      then have "(of_int 5404319552844595 :: rat) \<le> of_int (round_half_even (?q * 2 ^ 53))"
        by (simp only: of_int_le_iff)
      then have "?c \<le> of_int (round_half_even (?q * 2 ^ 53)) / 2 ^ 53"
        by (simp add: divide_le_cancel)
      then show ?thesis using float64_round_half_binade[of ?q] q35 True by simp
    next
      case False
      then have "1 \<le> ?q" by simp
      have "0 \<le> ilog2 ?q" using \<open>1 \<le> ?q\<close> by (intro ilog2_ge[OF q]) simp
      then have "(2::rat) powi 0 \<le> 2 powi (ilog2 ?q)" by (intro power_int_increasing) simp_all
      with lo have "1 \<le> float64_round ?q" by simp
      then show ?thesis by simp
    qed
    with True show ?thesis unfolding float64_0_6 by simp
  next
    case False
    then have "5 * f + 1 \<le> 3 * r" by simp
    then have "(of_nat (5 * f + 1) :: rat) \<le> of_nat (3 * r)" by (simp only: of_nat_le_iff)
    then have q35: "?q \<le> 3 / 5 - (1 / of_nat r) / 5" using r by (simp add: field_simps)
    have "(of_nat r :: rat) < of_nat (2 ^ 32)" using r by (simp only: of_nat_less_iff)
    then have r32: "(of_nat r :: rat) < 2 ^ 32" by simp
    have rpos: "(0 :: rat) < of_nat r" using r by simp
    have "1 / (2 ^ 32 :: rat) < 1 / of_nat r" using r32 rpos by (simp add: frac_less2)
    then have "1 / 4294967296 < 1 / (of_nat r :: rat)" by simp
    note q35' = ratio_gap[OF q35 this]
    have "float64_round ?q < ?c"
    proof (cases "1 / 2 \<le> ?q")
      case True
      have q1: "?q < 1" by (rule q35'(2))
      have "?q * 2 ^ 53 \<le> 5404319552425165" by (rule q35'(1))
      then have "?q * 2 ^ 53 \<le> of_int 5404319552425165" by simp
      then have "\<lceil>?q * 2 ^ 53\<rceil> \<le> 5404319552425165" by (simp only: ceiling_le_iff)
      with round_half_even_upper[of "?q * 2 ^ 53"]
      have "round_half_even (?q * 2 ^ 53) < 5404319552844595" by linarith
      then have "(of_int (round_half_even (?q * 2 ^ 53)) :: rat) < of_int 5404319552844595"
        by (simp only: of_int_less_iff)
      then have "of_int (round_half_even (?q * 2 ^ 53)) / 2 ^ 53 < ?c"
        by (simp add: divide_less_cancel)
      then show ?thesis using float64_round_half_binade[of ?q] q1 True by simp
    next
      case False
      then have h: "?q < 1 / 2" by simp
      have "ilog2 ?q \<le> -2" using h by (intro ilog2_le[OF q]) simp
      then have "ilog2 ?q + 1 \<le> -1" by simp
      then have "(2::rat) powi (ilog2 ?q + 1) \<le> 2 powi (-1)" by (intro power_int_increasing) simp_all
      with hi have "float64_round ?q \<le> 1 / 2" by simp
      then show ?thesis by simp
    qed
    with False show ?thesis unfolding float64_0_6 by simp
  qed
qed

subsection \<open>The trip predicate and the breaker\<close>

lemma ReadyToTrip_iff:
  "ReadyToTrip settings c \<longleftrightarrow>
     3 \<le> unat (Requests c) \<and> 3 * unat (Requests c) \<le> 5 * unat (TotalFailures c)"
proof (cases "Requests c < 3")
  case True
  then have "unat (Requests c) < 3" by (simp add: word_less_nat_alt)
  with True show ?thesis by (simp add: settings_def)
next
  case False
  then have r3: "3 \<le> unat (Requests c)" by (simp add: word_less_nat_alt)
  then have r0: "0 < unat (Requests c)" by simp
  have r32: "unat (Requests c) < 2 ^ 32" using unsigned_less[of "Requests c", where ?'a = nat] by simp
  show ?thesis
    using False r3 float64_ratio_ge_0_6[OF r0 r32, of "unat (TotalFailures c)"]
    by (simp add: settings_def float64_div_def float64_of_uint32_def)
qed

lemma settings_simps:
  "Settings.Name settings = ''MTN-Breaker''"
  "MaxRequests settings = 1"
  "Timeout settings = 30 * Second"
  "Interval settings = 5 * Second"
  "IsSuccessful settings err = (err = None)"
  by (simp_all add: settings_def)

lemmas breaker_eval = NewCircuitBreaker_def admission_def record_outcome_def currentState_def
  setState_def add_outcome_def clear_def settings_simps ReadyToTrip_iff Let_def
  Second_def Millisecond_def

lemma record_outcome_closed:
  assumes "state cb = StateClosed"
  shows "record_outcome cb now ok =
     (let cb1 = currentState cb now; cb2 = cb1\<lparr>counts := add_outcome (counts cb1) ok\<rparr>
      in if readyToTrip cb (counts cb2) then setState cb2 StateOpen now else cb2)"
  using assms by (simp add: record_outcome_def currentState_def setState_def Let_def)

lemma currentState_closed:
  "state cb = StateClosed \<Longrightarrow> state (currentState cb now) = StateClosed"
  by (simp add: currentState_def setState_def)

lemma ratio_nat:
  fixes f r :: nat
  assumes "0 < r"
  shows "((6 / 10 :: rat) \<le> of_nat f / of_nat r) = (3 * r \<le> 5 * f)"
proof -
  have "(0::rat) < of_nat r" using assms by simp
  then have "((6 / 10 :: rat) \<le> of_nat f / of_nat r)
      = ((of_nat (3 * r) :: rat) \<le> of_nat (5 * f))"
    by (simp add: field_simps)
  then show ?thesis by (simp only: of_nat_le_iff)
qed

lemma trip_cases:
  fixes f r :: nat
  assumes "T = (3 \<le> r \<and> 3 * r \<le> 5 * f)"
    and "T \<Longrightarrow> so \<and> \<not> sc"
    and "\<not> T \<Longrightarrow> sc \<and> \<not> so \<and> cw"
  shows "(so \<longleftrightarrow> 3 \<le> r \<and> (6 / 10 :: rat) \<le> of_nat f / of_nat r)
       \<and> (sc \<longleftrightarrow> r < 3 \<or> of_nat f / of_nat r < (6 / 10 :: rat))
       \<and> (sc \<longrightarrow> cw)"
proof (cases "3 \<le> r")
  case True
  then have "0 < r" by simp
  from ratio_nat[OF this, of f] True assms show ?thesis
    by (cases T) (auto simp: not_le[symmetric] simp del: not_le)
next
  case False
  with assms show ?thesis by (cases T) auto
qed

text \<open>
  C5. A CLOSED breaker with the trip predicate of \<^verbatim>\<open>newAggregator\<close> moves to OPEN on
  recording an outcome exactly when the window, with that outcome added, holds at least
  3 requests and its failures divided by its requests are at least 0.6; with fewer than
  3 requests, or with a smaller ratio, it stays CLOSED and keeps the window.
\<close>

theorem breaker_trips_at_threshold:
  assumes "state cb = StateClosed" and "readyToTrip cb = ReadyToTrip settings"
  shows "(let w = add_outcome (counts (currentState cb now)) ok;
              cb' = record_outcome cb now ok
          in (state cb' = StateOpen \<longleftrightarrow>
                3 \<le> unat (Requests w) \<and>
                (6 / 10 :: rat) \<le> of_nat (unat (TotalFailures w)) / of_nat (unat (Requests w)))
           \<and> (state cb' = StateClosed \<longleftrightarrow>
                unat (Requests w) < 3 \<or>
                of_nat (unat (TotalFailures w)) / of_nat (unat (Requests w)) < (6 / 10 :: rat))
           \<and> (state cb' = StateClosed \<longrightarrow> counts cb' = w))"
proof -
  define w where "w = add_outcome (counts (currentState cb now)) ok"
  have closed: "state (currentState cb now) = StateClosed"
    by (rule currentState_closed[OF assms(1)])
  have T: "ReadyToTrip settings w =
      (3 \<le> unat (Requests w) \<and> 3 * unat (Requests w) \<le> 5 * unat (TotalFailures w))"
    by (rule ReadyToTrip_iff)
  have yes: "state (record_outcome cb now ok) = StateOpen
      \<and> \<not> state (record_outcome cb now ok) = StateClosed" if "ReadyToTrip settings w"
    using that assms by (simp add: record_outcome_closed w_def Let_def setState_def)
  have no: "state (record_outcome cb now ok) = StateClosed
      \<and> \<not> state (record_outcome cb now ok) = StateOpen
      \<and> counts (record_outcome cb now ok) = w" if "\<not> ReadyToTrip settings w"
    using that assms closed by (simp add: record_outcome_closed w_def Let_def)
  show ?thesis
    unfolding Let_def w_def[symmetric] by (rule trip_cases[OF T yes no])
qed

text \<open>
  The two examples: after [fail, fail] the breaker is still CLOSED and a
  success as third outcome trips it (2 of 3); after [fail, success, success] it is
  CLOSED (1 of 3).
\<close>

theorem breaker_trips_at_threshold_witness:
  "(let cb = feed (NewCircuitBreaker settings 0) [(Second, False), (2 * Second, False)];
        w = add_outcome (counts (currentState cb (3 * Second))) True
    in state cb = StateClosed \<and> readyToTrip cb = ReadyToTrip settings
     \<and> unat (Requests w) = 3 \<and> unat (TotalFailures w) = 2
     \<and> state (record_outcome cb (3 * Second) True) = StateOpen)
   \<and> state (feed (NewCircuitBreaker settings 0)
         [(Second, False), (2 * Second, False), (3 * Second, True)]) = StateOpen
   \<and> state (feed (NewCircuitBreaker settings 0)
         [(Second, False), (2 * Second, True), (3 * Second, True)]) = StateClosed"
proof -
  define cb where
    "cb = feed (NewCircuitBreaker settings 0) [(Second, False), (2 * Second, False)]"
  have c: "state cb = StateClosed" and r: "readyToTrip cb = ReadyToTrip settings"
    by (simp_all add: cb_def breaker_eval)
  from breaker_trips_at_threshold[OF c r, of "3 * Second" True]
  have "state (record_outcome cb (3 * Second) True) = StateOpen"
    by (simp add: cb_def breaker_eval)
  then show ?thesis
    unfolding cb_def[symmetric] Let_def using c r
    by (simp add: breaker_eval) (simp add: cb_def breaker_eval)
qed

subsection \<open>The idempotency check\<close>

lemma CheckOrSetInProgress_completed:
  "client_Get r now (''txn:'' @ tid) = Inr StatusCompleted \<Longrightarrow>
     CheckOrSetInProgress r now tid = (DUPLICATE_COMPLETED, r)"
  by (simp add: CheckOrSetInProgress_def DUPLICATE_COMPLETED_def)

lemma CheckOrSetInProgress_in_progress:
  "client_Get r now (''txn:'' @ tid) \<noteq> Inr StatusCompleted \<Longrightarrow>
   fst (client_SetNX r now (''txn:'' @ tid) StatusInProgress InProgressExpiry) = Inr False \<Longrightarrow>
     CheckOrSetInProgress r now tid = (DUPLICATE_IN_PROGRESS, r)"
  by (auto simp: CheckOrSetInProgress_def DUPLICATE_IN_PROGRESS_def client_SetNX_def
      split: option.splits)

lemma CheckOrSetInProgress_new:
  "client_Get r now (''txn:'' @ tid) \<noteq> Inr StatusCompleted \<Longrightarrow>
   fst (client_SetNX r now (''txn:'' @ tid) StatusInProgress InProgressExpiry) = Inr True \<Longrightarrow>
     CheckOrSetInProgress r now tid =
       (NEW, r\<lparr>entries := (entries r)(''txn:'' @ tid \<mapsto> (StatusInProgress, now + InProgressExpiry))\<rparr>)"
  by (auto simp: CheckOrSetInProgress_def NEW_def client_SetNX_def split: option.splits)

lemma CheckOrSetInProgress_fault:
  "fault r = Some e \<Longrightarrow>
     CheckOrSetInProgress r now tid = ((False, Some (Wrapped ''redis SETNX error: '' e)), r)"
  by (simp add: CheckOrSetInProgress_def client_Get_def client_SetNX_def)

lemma store_responds:
  "fault r = None \<Longrightarrow>
     fst (client_SetNX r now key v ttl) = Inr False \<or> fst (client_SetNX r now key v ttl) = Inr True"
  by (simp add: client_SetNX_def split: option.splits)

lemma PayHandler_admitted:
  assumes "Method rq = ''POST''" "Body rq = Some req"
    and "CheckOrSetInProgress (Store a) now (TransactionID req) = ((isDuplicate, err), r')"
  shows "PayHandler a rnd now rq =
     (if (case err of Some e \<Rightarrow> Error e = ''transaction already in progress'' | None \<Rightarrow> False)
      then (Written StatusTooEarly
              (Json_map
                 [(''error'', ''Duplicate transaction ID detected''),
                  (''message'',
                   ''A transaction with this ID is currently being processed. Please wait.'')]),
            a\<lparr>Store := r'\<rparr>, [CallCheckOrSetInProgress (TransactionID req)])
      else if isDuplicate
      then (Written StatusConflict
              (Json_map
                 [(''error'', ''Duplicate transaction ID detected''),
                  (''message'',
                   ''This transaction ID has already been successfully completed.'')]),
            a\<lparr>Store := r'\<rparr>, [CallCheckOrSetInProgress (TransactionID req)])
      else PayHandler_provider (a\<lparr>Store := r'\<rparr>) rnd now rq req
             [CallCheckOrSetInProgress (TransactionID req)])"
  using assms by (simp add: PayHandler_def Let_def)

text \<open>
  C4. \<^verbatim>\<open>CheckOrSetInProgress\<close> classifies a transaction id by what the store answers, and
  the handler maps each classification to its outcome:
  \<^item> the stored value is COMPLETED: DUPLICATE_COMPLETED, the store is left as it was,
    and the handler answers 409 Conflict;
  \<^item> otherwise, the set-if-absent fails: DUPLICATE_IN_PROGRESS, and the handler answers
    425 Too Early;
  \<^item> otherwise, the set-if-absent succeeds: NEW, the key holds IN_PROGRESS with the
    10 s lease, and the handler goes on to the provider.
  A store that answers is in one of the three cases, and the three classifications are
  different values. (A store that cannot be reached is in none of them.)
\<close>

theorem admit_classifies:
  assumes "Method rq = ''POST''" and "Body rq = Some req"
  shows
    "(let key = ''txn:'' @ TransactionID req;
          got = client_Get (Store a) now key;
          setnx = fst (client_SetNX (Store a) now key StatusInProgress InProgressExpiry);
          admitted = CheckOrSetInProgress (Store a) now (TransactionID req);
          handled = PayHandler a rnd now rq
      in (got = Inr StatusCompleted \<longrightarrow>
            admitted = (DUPLICATE_COMPLETED, Store a) \<and>
            handled =
              (Written StatusConflict
                 (Json_map
                    [(''error'', ''Duplicate transaction ID detected''),
                     (''message'',
                      ''This transaction ID has already been successfully completed.'')]),
               a, [CallCheckOrSetInProgress (TransactionID req)]))
       \<and> (got \<noteq> Inr StatusCompleted \<and> setnx = Inr False \<longrightarrow>
            admitted = (DUPLICATE_IN_PROGRESS, Store a) \<and>
            handled =
              (Written StatusTooEarly
                 (Json_map
                    [(''error'', ''Duplicate transaction ID detected''),
                     (''message'',
                      ''A transaction with this ID is currently being processed. Please wait.'')]),
               a, [CallCheckOrSetInProgress (TransactionID req)]))
       \<and> (got \<noteq> Inr StatusCompleted \<and> setnx = Inr True \<longrightarrow>
            fst admitted = NEW \<and>
            entries (snd admitted) key = Some (StatusInProgress, now + InProgressExpiry) \<and>
            handled =
              PayHandler_provider (a\<lparr>Store := snd admitted\<rparr>) rnd now rq req
                [CallCheckOrSetInProgress (TransactionID req)])
       \<and> (fault (Store a) = None \<longrightarrow>
            got = Inr StatusCompleted \<or> setnx = Inr False \<or> setnx = Inr True)
       \<and> NEW \<noteq> DUPLICATE_IN_PROGRESS \<and> NEW \<noteq> DUPLICATE_COMPLETED
       \<and> DUPLICATE_IN_PROGRESS \<noteq> DUPLICATE_COMPLETED)"
proof -
  let ?tid = "TransactionID req"
  let ?key = "''txn:'' @ ?tid"
  let ?got = "client_Get (Store a) now ?key"
  let ?setnx = "fst (client_SetNX (Store a) now ?key StatusInProgress InProgressExpiry)"
  have c1: "CheckOrSetInProgress (Store a) now ?tid = (DUPLICATE_COMPLETED, Store a)
      \<and> PayHandler a rnd now rq =
          (Written StatusConflict
             (Json_map
                [(''error'', ''Duplicate transaction ID detected''),
                 (''message'', ''This transaction ID has already been successfully completed.'')]),
           a, [CallCheckOrSetInProgress ?tid])"
    if "?got = Inr StatusCompleted"
    using CheckOrSetInProgress_completed[OF that]
      PayHandler_admitted[OF assms, of a now True None "Store a" rnd]
    by (simp add: DUPLICATE_COMPLETED_def)
  have c2: "CheckOrSetInProgress (Store a) now ?tid = (DUPLICATE_IN_PROGRESS, Store a)
      \<and> PayHandler a rnd now rq =
          (Written StatusTooEarly
             (Json_map
                [(''error'', ''Duplicate transaction ID detected''),
                 (''message'',
                  ''A transaction with this ID is currently being processed. Please wait.'')]),
           a, [CallCheckOrSetInProgress ?tid])"
    if "?got \<noteq> Inr StatusCompleted" "?setnx = Inr False"
    using CheckOrSetInProgress_in_progress[OF that]
      PayHandler_admitted[OF assms, of a now True
        "Some (ErrorString ''transaction already in progress'')" "Store a" rnd]
    by (simp add: DUPLICATE_IN_PROGRESS_def)
  have c3: "fst (CheckOrSetInProgress (Store a) now ?tid) = NEW
      \<and> entries (snd (CheckOrSetInProgress (Store a) now ?tid)) ?key
          = Some (StatusInProgress, now + InProgressExpiry)
      \<and> PayHandler a rnd now rq =
          PayHandler_provider (a\<lparr>Store := snd (CheckOrSetInProgress (Store a) now ?tid)\<rparr>)
            rnd now rq req [CallCheckOrSetInProgress ?tid]"
    if "?got \<noteq> Inr StatusCompleted" "?setnx = Inr True"
    using CheckOrSetInProgress_new[OF that]
      PayHandler_admitted[OF assms, of a now False None
        "(Store a)\<lparr>entries := (entries (Store a))(?key \<mapsto> (StatusInProgress, now + InProgressExpiry))\<rparr>" rnd]
    by (simp add: NEW_def)
  have c4: "?got = Inr StatusCompleted \<or> ?setnx = Inr False \<or> ?setnx = Inr True"
    if "fault (Store a) = None"
    using store_responds[OF that] by blast
  have c5: "NEW \<noteq> DUPLICATE_IN_PROGRESS \<and> NEW \<noteq> DUPLICATE_COMPLETED
       \<and> DUPLICATE_IN_PROGRESS \<noteq> DUPLICATE_COMPLETED"
    by (simp add: NEW_def DUPLICATE_IN_PROGRESS_def DUPLICATE_COMPLETED_def)
  show ?thesis
    unfolding Let_def using c1 c2 c3 c4 c5 by blast
qed

theorem admit_classifies_witness:
  "(let req = \<lparr>TransactionID = ''T1'', Amount = 20, Currency = ''ZAR'', ProviderKey = ''MTN''\<rparr>;
        rq = \<lparr>Method = ''POST'', Body = Some req,
              RContext = \<lparr>Deadline = None, CancelAt = None\<rparr>\<rparr>;
        rnd = \<lparr>Intn = 100, Float64 = 1 / 2\<rparr>;
        done = \<lparr>entries = [''txn:T1'' \<mapsto> (''COMPLETED'', 3600 * Second)], fault = None\<rparr>;
        held = \<lparr>entries = [''txn:T1'' \<mapsto> (''IN_PROGRESS'', 10 * Second)], fault = None\<rparr>;
        fresh = \<lparr>entries = Map.empty, fault = None\<rparr>
    in (client_Get done Second ''txn:T1'' = Inr StatusCompleted
        \<and> CheckOrSetInProgress done Second ''T1'' = (DUPLICATE_COMPLETED, done)
        \<and> fst (PayHandler (newAggregator done 0) rnd Second rq) =
            Written StatusConflict
              (Json_map
                 [(''error'', ''Duplicate transaction ID detected''),
                  (''message'', ''This transaction ID has already been successfully completed.'')]))
     \<and> (client_Get held Second ''txn:T1'' \<noteq> Inr StatusCompleted
        \<and> fst (client_SetNX held Second ''txn:T1'' StatusInProgress InProgressExpiry) = Inr False
        \<and> CheckOrSetInProgress held Second ''T1'' = (DUPLICATE_IN_PROGRESS, held)
        \<and> fst (PayHandler (newAggregator held 0) rnd Second rq) =
            Written StatusTooEarly
              (Json_map
                 [(''error'', ''Duplicate transaction ID detected''),
                  (''message'',
                   ''A transaction with this ID is currently being processed. Please wait.'')]))
     \<and> (client_Get fresh Second ''txn:T1'' \<noteq> Inr StatusCompleted
        \<and> fst (client_SetNX fresh Second ''txn:T1'' StatusInProgress InProgressExpiry) = Inr True
        \<and> fst (CheckOrSetInProgress fresh Second ''T1'') = NEW
        \<and> entries (snd (CheckOrSetInProgress fresh Second ''T1'')) ''txn:T1''
            = Some (''IN_PROGRESS'', 11 * Second)
        \<and> PayHandler (newAggregator fresh 0) rnd Second rq =
            PayHandler_provider
              ((newAggregator fresh 0)\<lparr>Store := snd (CheckOrSetInProgress fresh Second ''T1'')\<rparr>)
              rnd Second rq req [CallCheckOrSetInProgress ''T1'']))"
proof -
  define req where
    "req = \<lparr>TransactionID = ''T1'', Amount = 20, Currency = ''ZAR'', ProviderKey = ''MTN''\<rparr>"
  define rq where
    "rq = \<lparr>Method = ''POST'', Body = Some req, RContext = \<lparr>Deadline = None, CancelAt = None\<rparr>\<rparr>"
  define rnd where "rnd = \<lparr>Intn = 100, Float64 = 1 / 2\<rparr>"
  have m: "Method rq = ''POST''" and b: "Body rq = Some req"
    by (simp_all add: rq_def)
  note ev = client_Get_def client_SetNX_def live_def StatusCompleted_def StatusInProgress_def
    InProgressExpiry_def Second_def Millisecond_def newAggregator_def req_def Let_def
  note th = admit_classifies[OF m b, unfolded Let_def, where rnd = rnd and now = Second]
  show ?thesis
    unfolding Let_def req_def[symmetric] rq_def[symmetric] rnd_def[symmetric]
    using
      th[of "newAggregator \<lparr>entries = [''txn:T1'' \<mapsto> (''COMPLETED'', 3600 * Second)], fault = None\<rparr> 0"]
      th[of "newAggregator \<lparr>entries = [''txn:T1'' \<mapsto> (''IN_PROGRESS'', 10 * Second)], fault = None\<rparr> 0"]
      th[of "newAggregator \<lparr>entries = Map.empty, fault = None\<rparr> 0"]
    by (simp add: ev)
qed

subsection \<open>The handler on concrete requests\<close>

lemma float64_tenth: "float64_round (1 / 10) = 7205759403792794 / 2 ^ 56"
  by code_simp

lemmas handler_eval =
  PayHandler_def PayHandler_provider_def CheckOrSetInProgress_def SetCompleted_def
  client_Get_def client_SetNX_def client_Set_def live_def Execute_def
  newAggregator_def NewMTNProvider_def MTN_ProcessPayment_def WithTimeout_def Done_def
  StatusCompleted_def StatusInProgress_def InProgressExpiry_def CompletedExpiry_def
  Hour_def Minute_def float64_tenth Sprintf_d.simps

lemma PayHandler_store_fault:
  assumes "Method rq = ''POST''" and "Body rq = Some req" and "fault (Store a) = Some e"
  shows "PayHandler a rnd now rq =
           PayHandler_provider a rnd now rq req [CallCheckOrSetInProgress (TransactionID req)]"
  using PayHandler_admitted[OF assms(1,2) CheckOrSetInProgress_fault[OF assms(3)], of rnd]
  by simp

text \<open>
  C1 asks that an idempotency check made while the store cannot be reached fails the
  whole request with a store-unavailable error. Here is what the code does when no
  Redis command gets through: \<^verbatim>\<open>CheckOrSetInProgress\<close> returns \<^verbatim>\<open>false\<close> with the wrapped
  SETNX error, \<^verbatim>\<open>PayHandler\<close> compares the error only with the text of the in-progress
  duplicate and, the flag being false, goes on as for a new transaction: the provider
  is called and the payment is answered 200 OK, with no lease written.
\<close>

theorem store_unreachable_handled_as_new:
  "CheckOrSetInProgress
     \<lparr>entries = Map.empty, fault = Some (ErrorString ''dial tcp 127.0.0.1:6379: connect: connection refused'')\<rparr>
     Second ''T1''
   = ((False,
       Some (Wrapped ''redis SETNX error: ''
               (ErrorString ''dial tcp 127.0.0.1:6379: connect: connection refused''))),
      \<lparr>entries = Map.empty, fault = Some (ErrorString ''dial tcp 127.0.0.1:6379: connect: connection refused'')\<rparr>)
   \<and> PayHandler
     (newAggregator
        \<lparr>entries = Map.empty, fault = Some (ErrorString ''dial tcp 127.0.0.1:6379: connect: connection refused'')\<rparr>
        0)
     \<lparr>Intn = 100, Float64 = 1 / 2\<rparr> Second
     \<lparr>Method = ''POST'',
      Body = Some \<lparr>TransactionID = ''T1'', Amount = 20, Currency = ''ZAR'', ProviderKey = ''MTN''\<rparr>,
      RContext = \<lparr>Deadline = None, CancelAt = None\<rparr>\<rparr>
   = (Written StatusOK
        (Json_response
           \<lparr>Status = ''SUCCESS'', ReferenceID = ''MTN-1300000000'', ProviderName = ''MTN_MOMO'',
            IsIdempotent = True, Message = ''Transaction processed successfully.''\<rparr>),
      \<lparr>Providers = [''MTN'' \<mapsto> NewMTNProvider],
       Store = \<lparr>entries = Map.empty, fault = Some (ErrorString ''dial tcp 127.0.0.1:6379: connect: connection refused'')\<rparr>,
       Breakers = [''MTN'' \<mapsto>
         (NewCircuitBreaker settings 0)
           \<lparr>counts := \<lparr>Requests = 1, TotalSuccesses = 1, TotalFailures = 0\<rparr>\<rparr>]\<rparr>,
      [CallCheckOrSetInProgress ''T1'',
       LogPrintf ''Starting transaction T1 via MTN_MOMO'',
       CallProcessPayment ''MTN_MOMO'' \<lparr>Deadline = Some (2 * Second), CancelAt = None\<rparr>
         \<lparr>TransactionID = ''T1'', Amount = 20, Currency = ''ZAR'', ProviderKey = ''MTN''\<rparr>
         (Some \<lparr>Status = ''SUCCESS'', ReferenceID = ''MTN-1300000000'', ProviderName = ''MTN_MOMO'',
                IsIdempotent = False, Message = ''Transaction processed successfully.''\<rparr>,
          None),
       CallSetCompleted ''T1'',
       LogPrintf ''Warning: Failed to set transaction T1 as COMPLETED in Redis: dial tcp 127.0.0.1:6379: connect: connection refused''])"
  by (simp add: handler_eval breaker_eval)

subsection \<open>Provider routing\<close>

lemmas status_codes =
  StatusOK_def StatusBadRequest_def StatusNotFound_def StatusMethodNotAllowed_def
  StatusConflict_def StatusTooEarly_def StatusInternalServerError_def
  StatusServiceUnavailable_def

lemma PayHandler_provider_not_found:
  "Providers a ''MTN'' = None \<Longrightarrow>
     PayHandler_provider a rnd now rq req evs =
       (Written StatusNotFound (Json_map [(''error'', ''Provider MTN not found'')]), a, evs)"
  by (simp add: PayHandler_provider_def)

lemma PayHandler_provider_found:
  "Providers a ''MTN'' = Some p \<Longrightarrow>
     fst (PayHandler_provider a rnd now rq req evs) \<noteq> Written StatusNotFound body"
  by (simp add: PayHandler_provider_def Let_def status_codes
      split: option.splits prod.splits)

text \<open>
  C2, as amended. The handler resolves the provider by the fixed key \<^verbatim>\<open>"MTN"\<close>, whatever
  the request's provider-selection key, and it does so after the idempotency check.
  For a transaction admitted as NEW: when \<^verbatim>\<open>"MTN"\<close> is not registered the outcome is
  404 Not Found, with no breaker, provider or completion call, and the store is as the
  check left it (holding the lease of the new id); when \<^verbatim>\<open>"MTN"\<close> is registered the
  outcome is never 404.
\<close>

theorem provider_resolved_by_fixed_key:
  assumes "Method rq = ''POST''" and "Body rq = Some req"
    and "fst (CheckOrSetInProgress (Store a) now (TransactionID req)) = NEW"
  shows "(Providers a ''MTN'' = None \<longrightarrow>
            PayHandler a rnd now rq =
              (Written StatusNotFound (Json_map [(''error'', ''Provider MTN not found'')]),
               a\<lparr>Store := snd (CheckOrSetInProgress (Store a) now (TransactionID req))\<rparr>,
               [CallCheckOrSetInProgress (TransactionID req)]))
       \<and> (Providers a ''MTN'' \<noteq> None \<longrightarrow>
            (\<forall>body. fst (PayHandler a rnd now rq) \<noteq> Written StatusNotFound body))"
proof -
  obtain r' where adm: "CheckOrSetInProgress (Store a) now (TransactionID req) = ((False, None), r')"
    using assms(3) by (cases "CheckOrSetInProgress (Store a) now (TransactionID req)")
      (simp add: NEW_def)
  have h: "PayHandler a rnd now rq =
      PayHandler_provider (a\<lparr>Store := r'\<rparr>) rnd now rq req
        [CallCheckOrSetInProgress (TransactionID req)]"
    using PayHandler_admitted[OF assms(1,2) adm, of rnd] by simp
  show ?thesis
  proof (cases "Providers a ''MTN''")
    case None
    then show ?thesis
      using PayHandler_provider_not_found[of "a\<lparr>Store := r'\<rparr>"] by (simp add: h adm)
  next
    case (Some p)
    then show ?thesis
      using PayHandler_provider_found[of "a\<lparr>Store := r'\<rparr>" p] by (simp add: h)
  qed
qed

theorem provider_resolved_by_fixed_key_witness:
  "(let fresh = \<lparr>entries = Map.empty, fault = None\<rparr>;
        a = \<lparr>Providers = [''AIRTEL'' \<mapsto> NewAirtelProvider], Store = fresh, Breakers = Map.empty\<rparr>;
        req = \<lparr>TransactionID = ''T1'', Amount = 20, Currency = ''ZAR'', ProviderKey = ''AIRTEL''\<rparr>;
        rq = \<lparr>Method = ''POST'', Body = Some req,
              RContext = \<lparr>Deadline = None, CancelAt = None\<rparr>\<rparr>;
        rnd = \<lparr>Intn = 100, Float64 = 1 / 2\<rparr>
    in fst (CheckOrSetInProgress fresh Second ''T1'') = NEW
     \<and> Providers a ''MTN'' = None
     \<and> PayHandler a rnd Second rq =
         (Written StatusNotFound (Json_map [(''error'', ''Provider MTN not found'')]),
          a\<lparr>Store := \<lparr>entries = [''txn:T1'' \<mapsto> (''IN_PROGRESS'', 11 * Second)], fault = None\<rparr>\<rparr>,
          [CallCheckOrSetInProgress ''T1''])
     \<and> Providers (newAggregator fresh 0) ''MTN'' \<noteq> None
     \<and> fst (PayHandler (newAggregator fresh 0) rnd Second rq)
         \<noteq> Written StatusNotFound (Json_map [(''error'', ''Provider MTN not found'')]))"
proof -
  define req where
    "req = \<lparr>TransactionID = ''T1'', Amount = 20, Currency = ''ZAR'', ProviderKey = ''AIRTEL''\<rparr>"
  define rq where
    "rq = \<lparr>Method = ''POST'', Body = Some req, RContext = \<lparr>Deadline = None, CancelAt = None\<rparr>\<rparr>"
  define fresh where "fresh = \<lparr>entries = Map.empty, fault = None\<rparr>"
  have m: "Method rq = ''POST''" and b: "Body rq = Some req"
    by (simp_all add: rq_def)
  have n: "CheckOrSetInProgress fresh Second ''T1'' =
      (NEW, \<lparr>entries = [''txn:T1'' \<mapsto> (''IN_PROGRESS'', 11 * Second)], fault = None\<rparr>)"
    by (simp add: fresh_def NEW_def CheckOrSetInProgress_def client_Get_def client_SetNX_def
        live_def StatusInProgress_def InProgressExpiry_def)
  have n1: "fst (CheckOrSetInProgress
      (Store \<lparr>Providers = [''AIRTEL'' \<mapsto> NewAirtelProvider], Store = fresh, Breakers = Map.empty\<rparr>)
      Second (TransactionID req)) = NEW"
    and n2: "fst (CheckOrSetInProgress (Store (newAggregator fresh 0)) Second (TransactionID req)) = NEW"
    by (simp_all add: n req_def newAggregator_def)
  show ?thesis
    unfolding Let_def req_def[symmetric] rq_def[symmetric] fresh_def[symmetric]
    using provider_resolved_by_fixed_key[OF m b n1, of "\<lparr>Intn = 100, Float64 = 1 / 2\<rparr>"]
      provider_resolved_by_fixed_key[OF m b n2, of "\<lparr>Intn = 100, Float64 = 1 / 2\<rparr>"]
    by (simp add: n req_def newAggregator_def)
qed

text \<open>
  Without the amendment the property fails: the request below selects \<^verbatim>\<open>"AIRTEL"\<close>, which the aggregator of
  \<^verbatim>\<open>newAggregator\<close> does not register, and it is not answered 404: the MTN provider is
  called, the payment succeeds and the store is written.
\<close>

theorem unregistered_provider_key_counterexample:
  "Providers (newAggregator \<lparr>entries = Map.empty, fault = None\<rparr> 0) ''AIRTEL'' = None
   \<and> PayHandler (newAggregator \<lparr>entries = Map.empty, fault = None\<rparr> 0)
       \<lparr>Intn = 100, Float64 = 1 / 2\<rparr> Second
       \<lparr>Method = ''POST'',
        Body = Some \<lparr>TransactionID = ''TXN-ID-022-1'', Amount = 20, Currency = ''ZAR'',
                     ProviderKey = ''AIRTEL''\<rparr>,
        RContext = \<lparr>Deadline = None, CancelAt = None\<rparr>\<rparr>
   = (Written StatusOK
        (Json_response
           \<lparr>Status = ''SUCCESS'', ReferenceID = ''MTN-1300000000'', ProviderName = ''MTN_MOMO'',
            IsIdempotent = True, Message = ''Transaction processed successfully.''\<rparr>),
      \<lparr>Providers = [''MTN'' \<mapsto> NewMTNProvider],
       Store = \<lparr>entries = [''txn:TXN-ID-022-1'' \<mapsto> (''COMPLETED'', 1300000000 + 24 * Hour)],
                fault = None\<rparr>,
       Breakers = [''MTN'' \<mapsto>
         (NewCircuitBreaker settings 0)
           \<lparr>counts := \<lparr>Requests = 1, TotalSuccesses = 1, TotalFailures = 0\<rparr>\<rparr>]\<rparr>,
      [CallCheckOrSetInProgress ''TXN-ID-022-1'',
       LogPrintf ''Starting transaction TXN-ID-022-1 via MTN_MOMO'',
       CallProcessPayment ''MTN_MOMO'' \<lparr>Deadline = Some (2 * Second), CancelAt = None\<rparr>
         \<lparr>TransactionID = ''TXN-ID-022-1'', Amount = 20, Currency = ''ZAR'',
          ProviderKey = ''AIRTEL''\<rparr>
         (Some \<lparr>Status = ''SUCCESS'', ReferenceID = ''MTN-1300000000'', ProviderName = ''MTN_MOMO'',
                IsIdempotent = False, Message = ''Transaction processed successfully.''\<rparr>,
          None),
       CallSetCompleted ''TXN-ID-022-1''])"
  by (simp add: handler_eval breaker_eval)

subsection \<open>The handler past the idempotency check\<close>

lemma currentState_fields [simp]:
  "isSuccessful (currentState cb now) = isSuccessful cb"
  "readyToTrip (currentState cb now) = readyToTrip cb"
  "maxRequests (currentState cb now) = maxRequests cb"
  "timeout (currentState cb now) = timeout cb"
  "interval (currentState cb now) = interval cb"
  "name (currentState cb now) = name cb"
  by (simp_all add: currentState_def setState_def split: State.splits)

lemma admission_fields:
  assumes "admission cb now = (cb1, e)"
  shows "isSuccessful cb1 = isSuccessful cb" "readyToTrip cb1 = readyToTrip cb"
    "maxRequests cb1 = maxRequests cb" "timeout cb1 = timeout cb" "interval cb1 = interval cb"
  using assms by (auto simp: admission_def Let_def split: State.splits if_splits)

lemma admission_error:
  "admission cb now = (cb1, Some e) \<Longrightarrow> e = ErrOpenState"
  by (auto simp: admission_def Let_def split: State.splits if_splits)

lemma admission_open:
  "state (currentState cb now) = StateOpen \<Longrightarrow>
     admission cb now = (currentState cb now, Some ErrOpenState)"
  by (simp add: admission_def)

lemma admission_closed:
  "state cb = StateClosed \<Longrightarrow> admission cb now = (currentState cb now, None)"
  by (simp add: admission_def currentState_closed)

lemma Execute_admitted:
  "admission cb now = (cb1, None) \<Longrightarrow> req now = ((res, err), t) \<Longrightarrow>
     Execute cb now req = (record_outcome cb1 t (isSuccessful cb err), (res, err), t, True)"
  by (simp add: Execute_def admission_fields)

lemma Execute_refused:
  "admission cb now = (cb1, Some e) \<Longrightarrow>
     Execute cb now req = (cb1, (None, Some ErrOpenState), now, False)"
  by (frule admission_error) (simp add: Execute_def)

lemma PayHandler_provider_refused:
  assumes "Providers a ''MTN'' = Some p" and "Breakers a ''MTN'' = Some cb"
    and "admission cb now = (cb1, Some e)"
  shows "PayHandler_provider a rnd now rq req evs =
     (Written StatusServiceUnavailable
        (Json_map
           [(''error'', ''Service Unavailable''),
            (''message'',
             ''Provider '' @ PaymentProvider.Name p @
             '' is currently experiencing high failure rates and has been temporarily taken offline.'')]),
      a\<lparr>Breakers := (Breakers a)(''MTN'' \<mapsto> cb1)\<rparr>,
      evs @
        [LogPrintf (''Starting transaction '' @ TransactionID req @ '' via '' @
                    PaymentProvider.Name p),
         LogPrintf (''Circuit Breaker OPEN for '' @ PaymentProvider.Name p @
                    ''. Bypassing request.'')])"
  using assms(1,2)
  by (simp add: PayHandler_provider_def Let_def Execute_refused[OF assms(3)])

lemma PayHandler_provider_called:
  assumes "Providers a ''MTN'' = Some p" and "Breakers a ''MTN'' = Some cb"
    and "admission cb now = (cb1, None)"
    and "ProcessPayment p rnd (WithTimeout (RContext rq) now (1 * Second)) now req = ((res, err), t)"
  shows "PayHandler_provider a rnd now rq req evs =
     (let ctx = WithTimeout (RContext rq) now (1 * Second);
          a2 = a\<lparr>Breakers := (Breakers a)(''MTN'' \<mapsto> record_outcome cb1 t (isSuccessful cb err))\<rparr>;
          ev4 = evs @
            [LogPrintf (''Starting transaction '' @ TransactionID req @ '' via '' @
                        PaymentProvider.Name p),
             CallProcessPayment (PaymentProvider.Name p) ctx req (res, err)]
      in if err = Some ErrOpenState
         then (Written StatusServiceUnavailable
                 (Json_map
                    [(''error'', ''Service Unavailable''),
                     (''message'',
                      ''Provider '' @ PaymentProvider.Name p @
                      '' is currently experiencing high failure rates and has been temporarily taken offline.'')]),
               a2,
               ev4 @ [LogPrintf (''Circuit Breaker OPEN for '' @ PaymentProvider.Name p @
                                 ''. Bypassing request.'')])
         else case err of
           Some e \<Rightarrow>
             (Written StatusInternalServerError
                (Json_map [(''error'', ''Processing error: '' @ Error e)]),
              a2, ev4 @ [LogPrintf (''Provider/CB Error: '' @ Error e)])
         | None \<Rightarrow>
             (case res of
                None \<Rightarrow> (Panicked, a2, ev4)
              | Some r \<Rightarrow>
                  if Status r = ''SUCCESS''
                  then (Written StatusOK (Json_response (r\<lparr>IsIdempotent := True\<rparr>)),
                        a2\<lparr>Store := snd (SetCompleted (Store a) t (TransactionID req))\<rparr>,
                        ev4 @ [CallSetCompleted (TransactionID req)] @
                          (case fst (SetCompleted (Store a) t (TransactionID req)) of
                             Some e \<Rightarrow>
                               [LogPrintf (''Warning: Failed to set transaction '' @
                                           TransactionID req @
                                           '' as COMPLETED in Redis: '' @ Error e)]
                           | None \<Rightarrow> []))
                  else (Written StatusOK (Json_response r), a2, ev4)))"
proof -
  have "ProcessPayment p rnd (WithTimeout (RContext rq) now Second) now req = ((res, err), t)"
    using assms(4) by simp
  from Execute_admitted[OF assms(3),
      of "\<lambda>t. ProcessPayment p rnd (WithTimeout (RContext rq) now Second) t req", OF this]
  show ?thesis
    using assms(1,2)
    by (simp add: PayHandler_provider_def Let_def case_prod_unfold split: option.splits)
qed

lemma float64_four_fifths: "float64_round (4 / 5) = 7205759403792794 / 2 ^ 53"
  by code_simp

lemma NEW_admitted:
  assumes "fst (CheckOrSetInProgress r now tid) = NEW"
  shows "CheckOrSetInProgress r now tid = ((False, None), snd (CheckOrSetInProgress r now tid))"
  using assms by (cases "CheckOrSetInProgress r now tid") (simp add: NEW_def)

lemma PayHandler_new:
  assumes "Method rq = ''POST''" and "Body rq = Some req"
    and "fst (CheckOrSetInProgress (Store a) now (TransactionID req)) = NEW"
  shows "PayHandler a rnd now rq =
     PayHandler_provider (a\<lparr>Store := snd (CheckOrSetInProgress (Store a) now (TransactionID req))\<rparr>)
       rnd now rq req [CallCheckOrSetInProgress (TransactionID req)]"
  using PayHandler_admitted[OF assms(1,2) NEW_admitted[OF assms(3)], of rnd] by simp

lemma PayHandler_provider_breaker:
  assumes "Providers a ''MTN'' = Some p" and "Breakers a ''MTN'' = Some cb"
    and "admission cb now = (cb1, None)"
    and "ProcessPayment p rnd (WithTimeout (RContext rq) now (1 * Second)) now req = ((res, err), t)"
  shows "Breakers (fst (snd (PayHandler_provider a rnd now rq req evs))) ''MTN'' =
     Some (record_outcome cb1 t (isSuccessful cb err))"
  unfolding PayHandler_provider_called[OF assms]
  by (simp add: Let_def split: option.splits)

lemma PayHandler_records_outcome:
  assumes "Method rq = ''POST''" and "Body rq = Some req"
    and "fst (CheckOrSetInProgress (Store a) now (TransactionID req)) = NEW"
    and "Providers a ''MTN'' = Some p" and "Breakers a ''MTN'' = Some cb"
    and "isSuccessful cb = IsSuccessful settings" and "state cb = StateClosed"
    and "ProcessPayment p rnd (WithTimeout (RContext rq) now (1 * Second)) now req = ((res, err), t)"
  shows
    "(let cb' = record_outcome (currentState cb now) t (err = None);
          w = counts (currentState (currentState cb now) t)
      in Breakers (fst (snd (PayHandler a rnd now rq))) ''MTN'' = Some cb'
       \<and> (state cb' = StateClosed \<and> err \<noteq> None \<longrightarrow>
            counts cb' = w\<lparr>Requests := Requests w + 1, TotalFailures := TotalFailures w + 1\<rparr>)
       \<and> (state cb' = StateClosed \<and> err = None \<longrightarrow>
            counts cb' = w\<lparr>Requests := Requests w + 1, TotalSuccesses := TotalSuccesses w + 1\<rparr>)
       \<and> (state cb' \<noteq> StateClosed \<longrightarrow>
            state cb' = StateOpen \<and> readyToTrip cb (add_outcome w (err = None))))"
proof -
  let ?a1 = "a\<lparr>Store := snd (CheckOrSetInProgress (Store a) now (TransactionID req))\<rparr>"
  have p: "Providers ?a1 ''MTN'' = Some p" and b: "Breakers ?a1 ''MTN'' = Some cb"
    using assms(4,5) by simp_all
  have adm: "admission cb now = (currentState cb now, None)"
    by (rule admission_closed[OF assms(7)])
  have 1: "Breakers (fst (snd (PayHandler a rnd now rq))) ''MTN'' =
      Some (record_outcome (currentState cb now) t (err = None))"
    unfolding PayHandler_new[OF assms(1,2,3)]
    using PayHandler_provider_breaker[OF p b adm assms(8)] assms(6)
    by (simp add: settings_simps)
  have c: "state (currentState cb now) = StateClosed"
    by (rule currentState_closed[OF assms(7)])
  have 2: "record_outcome (currentState cb now) t ok =
      (let cb2 = (currentState (currentState cb now) t)
            \<lparr>counts := add_outcome (counts (currentState (currentState cb now) t)) ok\<rparr>
       in if readyToTrip cb (counts cb2) then setState cb2 StateOpen t else cb2)" for ok
    using record_outcome_closed[OF c, of t ok] by (simp add: Let_def)
  have c2: "state (currentState (currentState cb now) t) = StateClosed"
    by (rule currentState_closed[OF c])
  show ?thesis
    unfolding Let_def
    using 1 c2 by (auto simp: 2 Let_def setState_def add_outcome_def split: if_splits)
qed

text \<open>
  C3, as amended. The breaker records a provider call by its error alone: the call is
  a failure exactly when \<^verbatim>\<open>ProcessPayment\<close> returns a non-nil error, whatever the Status
  of the response. For a transaction admitted as NEW and a CLOSED breaker with the
  classifier of \<^verbatim>\<open>newAggregator\<close>, the breaker after the request is the one that has
  recorded \<open>err = None\<close> as the outcome: while it stays CLOSED its window has one more
  request and one more failure when the error is non-nil, one more request and one more
  success when it is nil; otherwise it has tripped on the window so extended.
\<close>

theorem breaker_records_by_error_only:
  assumes "Method rq = ''POST''" and "Body rq = Some req"
    and "fst (CheckOrSetInProgress (Store a) now (TransactionID req)) = NEW"
    and "Providers a ''MTN'' = Some p" and "Breakers a ''MTN'' = Some cb"
    and "isSuccessful cb = IsSuccessful settings" and "state cb = StateClosed"
    and "ProcessPayment p rnd (WithTimeout (RContext rq) now (1 * Second)) now req = ((res, err), t)"
  shows
    "(let cb' = record_outcome (currentState cb now) t (err = None);
          w = counts (currentState (currentState cb now) t)
      in Breakers (fst (snd (PayHandler a rnd now rq))) ''MTN'' = Some cb'
       \<and> (state cb' = StateClosed \<and> err \<noteq> None \<longrightarrow>
            counts cb' = w\<lparr>Requests := Requests w + 1, TotalFailures := TotalFailures w + 1\<rparr>)
       \<and> (state cb' = StateClosed \<and> err = None \<longrightarrow>
            counts cb' = w\<lparr>Requests := Requests w + 1, TotalSuccesses := TotalSuccesses w + 1\<rparr>)
       \<and> (state cb' \<noteq> StateClosed \<longrightarrow>
            state cb' = StateOpen \<and> readyToTrip cb (add_outcome w (err = None))))"
  by (rule PayHandler_records_outcome[OF assms])

theorem breaker_records_by_error_only_witness:
  "(let fresh = \<lparr>entries = Map.empty, fault = None\<rparr>;
        req = \<lparr>TransactionID = ''T1'', Amount = 20, Currency = ''ZAR'', ProviderKey = ''MTN''\<rparr>;
        rq = \<lparr>Method = ''POST'', Body = Some req,
              RContext = \<lparr>Deadline = None, CancelAt = None\<rparr>\<rparr>;
        failed = \<lparr>Status = ''FAILED'', ReferenceID = ''N/A'', ProviderName = ''MTN_MOMO'',
                  IsIdempotent = False,
                  Message = ''Provider internal server error (simulated 500)''\<rparr>;
        a1 = newAggregator fresh 0;
        a2 = a1\<lparr>Providers := [''MTN'' \<mapsto> NewMTNProvider_2]\<rparr>
    in fst (CheckOrSetInProgress fresh Second ''T1'') = NEW
     \<and> state (NewCircuitBreaker settings 0) = StateClosed
     \<and> ProcessPayment NewMTNProvider \<lparr>Intn = 100, Float64 = 1 / 20\<rparr>
           (WithTimeout (RContext rq) Second (1 * Second)) Second req
         = ((Some failed, None), 1300000000)
     \<and> Breakers (fst (snd (PayHandler a1 \<lparr>Intn = 100, Float64 = 1 / 20\<rparr> Second rq))) ''MTN''
         = Some ((NewCircuitBreaker settings 0)
                   \<lparr>counts := \<lparr>Requests = 1, TotalSuccesses = 1, TotalFailures = 0\<rparr>\<rparr>)
     \<and> ProcessPayment NewMTNProvider_2 \<lparr>Intn = 100, Float64 = 1 / 2\<rparr>
           (WithTimeout (RContext rq) Second (1 * Second)) Second req
         = ((Some failed,
             Some (ErrorString ''provider failure: Provider internal server error (simulated 500)'')),
            1300000000)
     \<and> Breakers (fst (snd (PayHandler a2 \<lparr>Intn = 100, Float64 = 1 / 2\<rparr> Second rq))) ''MTN''
         = Some ((NewCircuitBreaker settings 0)
                   \<lparr>counts := \<lparr>Requests = 1, TotalSuccesses = 0, TotalFailures = 1\<rparr>\<rparr>))"
proof -
  define fresh where "fresh = \<lparr>entries = Map.empty, fault = None\<rparr>"
  define req where
    "req = \<lparr>TransactionID = ''T1'', Amount = 20, Currency = ''ZAR'', ProviderKey = ''MTN''\<rparr>"
  define rq where
    "rq = \<lparr>Method = ''POST'', Body = Some req, RContext = \<lparr>Deadline = None, CancelAt = None\<rparr>\<rparr>"
  define failed where
    "failed = \<lparr>Status = ''FAILED'', ReferenceID = ''N/A'', ProviderName = ''MTN_MOMO'',
               IsIdempotent = False,
               Message = ''Provider internal server error (simulated 500)''\<rparr>"
  define a1 where "a1 = newAggregator fresh 0"
  define a2 where "a2 = a1\<lparr>Providers := [''MTN'' \<mapsto> NewMTNProvider_2]\<rparr>"
  have m: "Method rq = ''POST''" and b: "Body rq = Some req"
    by (simp_all add: rq_def)
  have n: "fst (CheckOrSetInProgress fresh Second ''T1'') = NEW"
    by (simp add: fresh_def NEW_def CheckOrSetInProgress_def client_Get_def client_SetNX_def
        live_def)
  have n1: "fst (CheckOrSetInProgress (Store a1) Second (TransactionID req)) = NEW"
    and n2: "fst (CheckOrSetInProgress (Store a2) Second (TransactionID req)) = NEW"
    using n by (simp_all add: a1_def a2_def newAggregator_def req_def)
  have p1: "Providers a1 ''MTN'' = Some NewMTNProvider"
    and p2: "Providers a2 ''MTN'' = Some NewMTNProvider_2"
    and b1: "Breakers a1 ''MTN'' = Some (NewCircuitBreaker settings 0)"
    and b2: "Breakers a2 ''MTN'' = Some (NewCircuitBreaker settings 0)"
    by (simp_all add: a1_def a2_def newAggregator_def)
  have s: "isSuccessful (NewCircuitBreaker settings 0) = IsSuccessful settings"
    and c: "state (NewCircuitBreaker settings 0) = StateClosed"
    by (simp_all add: NewCircuitBreaker_def)
  have r1: "ProcessPayment NewMTNProvider \<lparr>Intn = 100, Float64 = 1 / 20\<rparr>
      (WithTimeout (RContext rq) Second (1 * Second)) Second req
      = ((Some failed, None), 1300000000)"
    by (simp add: NewMTNProvider_def MTN_ProcessPayment_def WithTimeout_def Done_def rq_def
        failed_def float64_tenth Second_def Millisecond_def)
  have r2: "ProcessPayment NewMTNProvider_2 \<lparr>Intn = 100, Float64 = 1 / 2\<rparr>
      (WithTimeout (RContext rq) Second (1 * Second)) Second req
      = ((Some failed,
          Some (ErrorString ''provider failure: Provider internal server error (simulated 500)'')),
         1300000000)"
    by (simp add: NewMTNProvider_2_def MTN_ProcessPayment_2_def WithTimeout_def Done_def rq_def
        failed_def float64_four_fifths Second_def Millisecond_def)
  note t1 = breaker_records_by_error_only[OF m b n1 p1 b1 s c r1, unfolded Let_def, THEN conjunct1]
  note t2 = breaker_records_by_error_only[OF m b n2 p2 b2 s c r2, unfolded Let_def, THEN conjunct1]
  have e1: "record_outcome (currentState (NewCircuitBreaker settings 0) Second) 1300000000 True
      = (NewCircuitBreaker settings 0)
          \<lparr>counts := \<lparr>Requests = 1, TotalSuccesses = 1, TotalFailures = 0\<rparr>\<rparr>"
    and e2: "record_outcome (currentState (NewCircuitBreaker settings 0) Second) 1300000000 False
      = (NewCircuitBreaker settings 0)
          \<lparr>counts := \<lparr>Requests = 1, TotalSuccesses = 0, TotalFailures = 1\<rparr>\<rparr>"
    by (simp_all add: breaker_eval)
  show ?thesis
    unfolding Let_def fresh_def[symmetric] req_def[symmetric] rq_def[symmetric]
      failed_def[symmetric] a1_def[symmetric] a2_def[symmetric]
    using n c r1 r2 t1 t2 by (simp add: e1 e2)
qed

text \<open>
  Without the amendment the property fails: the MTN provider (the first text of \<^verbatim>\<open>mtn.go\<close>) returns its FAILED
  response with a nil error, the breaker counts one success and no failure, and the
  handler answers 200 OK with the FAILED payload.
\<close>

theorem failed_response_counted_as_success_counterexample:
  "PayHandler (newAggregator \<lparr>entries = Map.empty, fault = None\<rparr> 0)
       \<lparr>Intn = 100, Float64 = 1 / 20\<rparr> Second
       \<lparr>Method = ''POST'',
        Body = Some \<lparr>TransactionID = ''T1'', Amount = 20, Currency = ''ZAR'',
                     ProviderKey = ''MTN''\<rparr>,
        RContext = \<lparr>Deadline = None, CancelAt = None\<rparr>\<rparr>
   = (Written StatusOK
        (Json_response
           \<lparr>Status = ''FAILED'', ReferenceID = ''N/A'', ProviderName = ''MTN_MOMO'',
            IsIdempotent = False,
            Message = ''Provider internal server error (simulated 500)''\<rparr>),
      \<lparr>Providers = [''MTN'' \<mapsto> NewMTNProvider],
       Store = \<lparr>entries = [''txn:T1'' \<mapsto> (''IN_PROGRESS'', 11 * Second)], fault = None\<rparr>,
       Breakers = [''MTN'' \<mapsto>
         (NewCircuitBreaker settings 0)
           \<lparr>counts := \<lparr>Requests = 1, TotalSuccesses = 1, TotalFailures = 0\<rparr>\<rparr>]\<rparr>,
      [CallCheckOrSetInProgress ''T1'',
       LogPrintf ''Starting transaction T1 via MTN_MOMO'',
       CallProcessPayment ''MTN_MOMO'' \<lparr>Deadline = Some (2 * Second), CancelAt = None\<rparr>
         \<lparr>TransactionID = ''T1'', Amount = 20, Currency = ''ZAR'', ProviderKey = ''MTN''\<rparr>
         (Some \<lparr>Status = ''FAILED'', ReferenceID = ''N/A'', ProviderName = ''MTN_MOMO'',
                IsIdempotent = False,
                Message = ''Provider internal server error (simulated 500)''\<rparr>,
          None)])"
  by (simp add: handler_eval breaker_eval)

subsection \<open>An open breaker\<close>

lemma NEW_lease:
  assumes "fst (CheckOrSetInProgress r now tid) = NEW"
  shows "entries (snd (CheckOrSetInProgress r now tid)) (''txn:'' @ tid)
           = Some (StatusInProgress, now + InProgressExpiry)"
  using assms
  by (auto simp: CheckOrSetInProgress_def NEW_def client_SetNX_def Let_def
      split: if_splits option.splits sum.splits)

lemma currentState_open_iff:
  "state (currentState cb now) = StateOpen \<longleftrightarrow>
     state cb = StateOpen \<and> now < since cb + timeout cb"
  by (auto simp: currentState_def setState_def split: State.splits if_splits)

lemma currentState_open:
  "state (currentState cb now) = StateOpen \<Longrightarrow> currentState cb now = cb"
  by (auto simp: currentState_def setState_def split: State.splits if_splits)

text \<open>
  C6. When the breaker of the resolved provider is OPEN at the instant of the request
  (OPEN, its cool-down still running), the handler answers a transaction admitted as
  NEW with 503 Service Unavailable and a message naming the provider; the provider is
  not called, \<^verbatim>\<open>SetCompleted\<close> is not called, and the store keeps the IN_PROGRESS lease
  the idempotency check wrote.
\<close>

theorem open_breaker_short_circuits:
  assumes "Method rq = ''POST''" and "Body rq = Some req"
    and "fst (CheckOrSetInProgress (Store a) now (TransactionID req)) = NEW"
    and "Providers a ''MTN'' = Some p" and "Breakers a ''MTN'' = Some cb"
    and "state (currentState cb now) = StateOpen"
  shows
    "(let store1 = snd (CheckOrSetInProgress (Store a) now (TransactionID req));
          handled = PayHandler a rnd now rq;
          evs = snd (snd handled)
      in handled =
           (Written StatusServiceUnavailable
              (Json_map
                 [(''error'', ''Service Unavailable''),
                  (''message'',
                   ''Provider '' @ PaymentProvider.Name p @
                   '' is currently experiencing high failure rates and has been temporarily taken offline.'')]),
            a\<lparr>Store := store1\<rparr>,
            [CallCheckOrSetInProgress (TransactionID req),
             LogPrintf (''Starting transaction '' @ TransactionID req @ '' via '' @
                        PaymentProvider.Name p),
             LogPrintf (''Circuit Breaker OPEN for '' @ PaymentProvider.Name p @
                        ''. Bypassing request.'')])
       \<and> (\<forall>n c q x. CallProcessPayment n c q x \<notin> set evs)
       \<and> (\<forall>t. CallSetCompleted t \<notin> set evs)
       \<and> entries store1 (''txn:'' @ TransactionID req)
           = Some (StatusInProgress, now + InProgressExpiry)
       \<and> state cb = StateOpen \<and> now < since cb + timeout cb)"
proof -
  let ?s1 = "snd (CheckOrSetInProgress (Store a) now (TransactionID req))"
  let ?a1 = "a\<lparr>Store := ?s1\<rparr>"
  have p: "Providers ?a1 ''MTN'' = Some p" and b: "Breakers ?a1 ''MTN'' = Some cb"
    using assms(4,5) by simp_all
  have cs: "currentState cb now = cb" by (rule currentState_open[OF assms(6)])
  have adm: "admission cb now = (cb, Some ErrOpenState)"
    using admission_open[OF assms(6)] by (simp add: cs)
  have upd: "(Breakers a)(''MTN'' \<mapsto> cb) = Breakers a"
    using assms(5) by (simp add: fun_upd_idem)
  have h: "PayHandler a rnd now rq =
           (Written StatusServiceUnavailable
              (Json_map
                 [(''error'', ''Service Unavailable''),
                  (''message'',
                   ''Provider '' @ PaymentProvider.Name p @
                   '' is currently experiencing high failure rates and has been temporarily taken offline.'')]),
            ?a1,
            [CallCheckOrSetInProgress (TransactionID req),
             LogPrintf (''Starting transaction '' @ TransactionID req @ '' via '' @
                        PaymentProvider.Name p),
             LogPrintf (''Circuit Breaker OPEN for '' @ PaymentProvider.Name p @
                        ''. Bypassing request.'')])"
    unfolding PayHandler_new[OF assms(1,2,3)] PayHandler_provider_refused[OF p b adm]
    by (simp add: upd)
  show ?thesis
    unfolding Let_def h
    using NEW_lease[OF assms(3)] assms(6) by (simp add: currentState_open_iff)
qed

theorem open_breaker_short_circuits_witness:
  "(let held = \<lparr>entries = [''txn:T1'' \<mapsto> (''IN_PROGRESS'', 13 * Second)], fault = None\<rparr>;
        req = \<lparr>TransactionID = ''T1'', Amount = 20, Currency = ''ZAR'', ProviderKey = ''MTN''\<rparr>;
        rq = \<lparr>Method = ''POST'', Body = Some req,
              RContext = \<lparr>Deadline = None, CancelAt = None\<rparr>\<rparr>;
        cb = setState (NewCircuitBreaker settings 0) StateOpen (2 * Second);
        a = (newAggregator \<lparr>entries = Map.empty, fault = None\<rparr> 0)
              \<lparr>Breakers := [''MTN'' \<mapsto> cb]\<rparr>
    in fst (CheckOrSetInProgress (Store a) (3 * Second) ''T1'') = NEW
     \<and> Providers a ''MTN'' = Some NewMTNProvider
     \<and> state (currentState cb (3 * Second)) = StateOpen
     \<and> PayHandler a \<lparr>Intn = 100, Float64 = 1 / 2\<rparr> (3 * Second) rq =
         (Written StatusServiceUnavailable
            (Json_map
               [(''error'', ''Service Unavailable''),
                (''message'',
                 ''Provider MTN_MOMO is currently experiencing high failure rates and has been temporarily taken offline.'')]),
          a\<lparr>Store := held\<rparr>,
          [CallCheckOrSetInProgress ''T1'',
           LogPrintf ''Starting transaction T1 via MTN_MOMO'',
           LogPrintf ''Circuit Breaker OPEN for MTN_MOMO. Bypassing request.'']))"
proof -
  define req where
    "req = \<lparr>TransactionID = ''T1'', Amount = 20, Currency = ''ZAR'', ProviderKey = ''MTN''\<rparr>"
  define rq where
    "rq = \<lparr>Method = ''POST'', Body = Some req, RContext = \<lparr>Deadline = None, CancelAt = None\<rparr>\<rparr>"
  define cb where "cb = setState (NewCircuitBreaker settings 0) StateOpen (2 * Second)"
  define a where
    "a = (newAggregator \<lparr>entries = Map.empty, fault = None\<rparr> 0)\<lparr>Breakers := [''MTN'' \<mapsto> cb]\<rparr>"
  have m: "Method rq = ''POST''" and b: "Body rq = Some req"
    by (simp_all add: rq_def)
  have n: "CheckOrSetInProgress (Store a) (3 * Second) ''T1'' =
      (NEW, \<lparr>entries = [''txn:T1'' \<mapsto> (''IN_PROGRESS'', 13 * Second)], fault = None\<rparr>)"
    by (simp add: a_def newAggregator_def NEW_def CheckOrSetInProgress_def client_Get_def
        client_SetNX_def live_def StatusInProgress_def InProgressExpiry_def)
  have n1: "fst (CheckOrSetInProgress (Store a) (3 * Second) (TransactionID req)) = NEW"
    by (simp add: n req_def)
  have p: "Providers a ''MTN'' = Some NewMTNProvider" and bk: "Breakers a ''MTN'' = Some cb"
    by (simp_all add: a_def newAggregator_def)
  have s: "state (currentState cb (3 * Second)) = StateOpen"
    by (simp add: cb_def breaker_eval)
  show ?thesis
    unfolding Let_def req_def[symmetric] rq_def[symmetric] cb_def[symmetric] a_def[symmetric]
    using open_breaker_short_circuits[OF m b n1 p bk s, of "\<lparr>Intn = 100, Float64 = 1 / 2\<rparr>"]
      n p s
    by (simp add: Let_def req_def NewMTNProvider_def)
qed

subsection \<open>The deadline of a provider call\<close>

lemma WithTimeout_deadline:
  "\<exists>d. Deadline (WithTimeout parent now dur) = Some d \<and> d \<le> now + dur
       \<and> (\<forall>pd. Deadline parent = Some pd \<longrightarrow> d \<le> pd)"
  by (simp add: WithTimeout_def split: option.splits)

lemma WithTimeout_cancel: "CancelAt (WithTimeout parent now dur) = CancelAt parent"
  by (simp add: WithTimeout_def)

lemma Done_error:
  "Done ctx t = Some (t', e) \<Longrightarrow> (e = DeadlineExceeded \<or> e = Canceled) \<and> t' \<le> t"
  by (auto simp: Done_def split: option.splits if_splits)

lemma Done_deadline:
  "Deadline ctx = Some d \<Longrightarrow> d \<le> t \<Longrightarrow> \<exists>t' e. Done ctx t = Some (t', e) \<and> t' \<le> d"
  by (auto simp: Done_def split: option.splits if_splits)

lemma providers_honour_context:
  assumes "Done ctx (now + (Intn rnd + 200) * Millisecond) = Some (t, e)"
  shows "MTN_ProcessPayment rnd ctx now req = ((None, Some e), max now t)"
    and "MTN_ProcessPayment_2 rnd ctx now req = ((None, Some e), max now t)"
    and "Airtel_ProcessPayment rnd ctx now req = ((None, Some e), max now t)"
  using assms
  by (simp_all add: MTN_ProcessPayment_def MTN_ProcessPayment_2_def Airtel_ProcessPayment_def)

lemma PayHandler_provider_calls:
  assumes "CallProcessPayment n c q x \<in> set (snd (snd (PayHandler_provider a rnd now rq req evs)))"
  shows "CallProcessPayment n c q x \<in> set evs \<or>
     (c = WithTimeout (RContext rq) now (1 * Second) \<and> q = req \<and>
      (\<exists>p t. Providers a ''MTN'' = Some p \<and> n = PaymentProvider.Name p \<and>
             ProcessPayment p rnd c now req = (x, t)))"
proof (cases "Providers a ''MTN''")
  case None
  with assms show ?thesis by (simp add: PayHandler_provider_not_found)
next
  case (Some p)
  note p = this
  show ?thesis
  proof (cases "Breakers a ''MTN''")
    case None
    with assms p show ?thesis by (simp add: PayHandler_provider_def Let_def)
  next
    case (Some cb)
    note b = this
    obtain cb1 e where adm: "admission cb now = (cb1, e)" by (cases "admission cb now")
    show ?thesis
    proof (cases e)
      case None
      obtain res err t where r:
        "ProcessPayment p rnd (WithTimeout (RContext rq) now (1 * Second)) now req = ((res, err), t)"
        by (cases "ProcessPayment p rnd (WithTimeout (RContext rq) now (1 * Second)) now req") auto
      from assms show ?thesis
        unfolding PayHandler_provider_called[OF p b adm[unfolded None] r]
        using p r by (auto simp: Let_def split: if_splits option.splits)
    next
      case (Some e')
      from assms show ?thesis
        unfolding PayHandler_provider_refused[OF p b adm[unfolded Some]]
        by auto
    qed
  qed
qed

lemma PayHandler_calls:
  assumes "CallProcessPayment n c q x \<in> set (snd (snd (PayHandler a rnd now rq)))"
  shows "c = WithTimeout (RContext rq) now (1 * Second) \<and> Body rq = Some q"
proof -
  from assms have m: "Method rq = ''POST''"
    by (auto simp: PayHandler_def split: if_splits)
  from assms m obtain req where b: "Body rq = Some req"
    by (cases "Body rq") (auto simp: PayHandler_def)
  obtain isDuplicate err r' where
    adm: "CheckOrSetInProgress (Store a) now (TransactionID req) = ((isDuplicate, err), r')"
    by (cases "CheckOrSetInProgress (Store a) now (TransactionID req)") auto
  from assms have "CallProcessPayment n c q x \<in>
      set (snd (snd (PayHandler_provider (a\<lparr>Store := r'\<rparr>) rnd now rq req
        [CallCheckOrSetInProgress (TransactionID req)])))"
    unfolding PayHandler_admitted[OF m b adm] by (auto split: if_splits)
  from PayHandler_provider_calls[OF this] b show ?thesis by auto
qed

lemma PayHandler_provider_error:
  assumes "Providers a ''MTN'' = Some p" and "Breakers a ''MTN'' = Some cb"
    and "admission cb now = (cb1, None)"
    and "ProcessPayment p rnd (WithTimeout (RContext rq) now (1 * Second)) now req
           = ((res, Some e), t)"
    and "e \<noteq> ErrOpenState"
  shows "PayHandler_provider a rnd now rq req evs =
     (Written StatusInternalServerError (Json_map [(''error'', ''Processing error: '' @ Error e)]),
      a\<lparr>Breakers := (Breakers a)(''MTN'' \<mapsto> record_outcome cb1 t (isSuccessful cb (Some e)))\<rparr>,
      evs @
        [LogPrintf (''Starting transaction '' @ TransactionID req @ '' via '' @
                    PaymentProvider.Name p),
         CallProcessPayment (PaymentProvider.Name p)
           (WithTimeout (RContext rq) now (1 * Second)) req (res, Some e),
         LogPrintf (''Provider/CB Error: '' @ Error e)])"
  unfolding PayHandler_provider_called[OF assms(1-4)] using assms(5) by (simp add: Let_def)

text \<open>
  C7. Every provider call the handler makes is given the context
  \<^verbatim>\<open>context.WithTimeout(r.Context(), 1*time.Second)\<close>: its deadline is at most one second
  after the request, and it is cancelled when the inbound request is. The providers of
  the repository return \<^verbatim>\<open>ctx.Err()\<close> (deadline exceeded or cancelled) when that context
  is done before their answer is ready. When the provider call of a transaction admitted
  as NEW returns one of these two errors, the caller is answered 500 with the error's
  text as the cause, which is how the handler reports a timeout, \<^verbatim>\<open>SetCompleted\<close> is
  not called, and the (CLOSED) breaker records a failure: one more request and one more
  failure in its window, unless that failure trips it.
\<close>

theorem provider_call_deadline_and_timeout:
  "(\<forall>n c q x.
      CallProcessPayment n c q x \<in> set (snd (snd (PayHandler a rnd now rq))) \<longrightarrow>
        c = WithTimeout (RContext rq) now (1 * Second)
        \<and> (\<exists>d. Deadline c = Some d \<and> d \<le> now + 1 * Second)
        \<and> CancelAt c = CancelAt (RContext rq))
   \<and> (\<forall>ctx t e.
        Done ctx (now + (Intn rnd + 200) * Millisecond) = Some (t, e) \<longrightarrow>
          (e = DeadlineExceeded \<or> e = Canceled)
          \<and> MTN_ProcessPayment rnd ctx now req = ((None, Some e), max now t)
          \<and> MTN_ProcessPayment_2 rnd ctx now req = ((None, Some e), max now t)
          \<and> Airtel_ProcessPayment rnd ctx now req = ((None, Some e), max now t))
   \<and> (Method rq = ''POST'' \<and> Body rq = Some req
        \<and> fst (CheckOrSetInProgress (Store a) now (TransactionID req)) = NEW
        \<and> Providers a ''MTN'' = Some p \<and> Breakers a ''MTN'' = Some cb
        \<and> isSuccessful cb = IsSuccessful settings \<and> state cb = StateClosed
        \<and> ProcessPayment p rnd (WithTimeout (RContext rq) now (1 * Second)) now req
            = ((res, Some e), t)
        \<and> (e = DeadlineExceeded \<or> e = Canceled) \<longrightarrow>
        (let handled = PayHandler a rnd now rq;
             cb' = record_outcome (currentState cb now) t False;
             w = counts (currentState (currentState cb now) t)
         in fst handled =
              Written StatusInternalServerError
                (Json_map [(''error'', ''Processing error: '' @ Error e)])
          \<and> (Error e = ''context deadline exceeded'' \<or> Error e = ''context canceled'')
          \<and> (\<forall>tid. CallSetCompleted tid \<notin> set (snd (snd handled)))
          \<and> Breakers (fst (snd handled)) ''MTN'' = Some cb'
          \<and> (state cb' = StateClosed \<longrightarrow>
               counts cb' = w\<lparr>Requests := Requests w + 1, TotalFailures := TotalFailures w + 1\<rparr>)
          \<and> (state cb' \<noteq> StateClosed \<longrightarrow> state cb' = StateOpen)))"
proof (intro conjI allI impI)
  fix n c q x
  assume "CallProcessPayment n c q x \<in> set (snd (snd (PayHandler a rnd now rq)))"
  from PayHandler_calls[OF this]
  show "c = WithTimeout (RContext rq) now (1 * Second)" by simp
  then show "\<exists>d. Deadline c = Some d \<and> d \<le> now + 1 * Second"
    using WithTimeout_deadline[of "RContext rq" now "1 * Second"] by auto
  from \<open>c = WithTimeout (RContext rq) now (1 * Second)\<close>
  show "CancelAt c = CancelAt (RContext rq)" by (simp add: WithTimeout_cancel)
next
  fix ctx t e
  assume d: "Done ctx (now + (Intn rnd + 200) * Millisecond) = Some (t, e)"
  from Done_error[OF d] show "e = DeadlineExceeded \<or> e = Canceled" by simp
  from providers_honour_context[OF d]
  show "MTN_ProcessPayment rnd ctx now req = ((None, Some e), max now t)"
    and "MTN_ProcessPayment_2 rnd ctx now req = ((None, Some e), max now t)"
    and "Airtel_ProcessPayment rnd ctx now req = ((None, Some e), max now t)"
    by simp_all
next
  assume h: "Method rq = ''POST'' \<and> Body rq = Some req
        \<and> fst (CheckOrSetInProgress (Store a) now (TransactionID req)) = NEW
        \<and> Providers a ''MTN'' = Some p \<and> Breakers a ''MTN'' = Some cb
        \<and> isSuccessful cb = IsSuccessful settings \<and> state cb = StateClosed
        \<and> ProcessPayment p rnd (WithTimeout (RContext rq) now (1 * Second)) now req
            = ((res, Some e), t)
        \<and> (e = DeadlineExceeded \<or> e = Canceled)"
  then have m: "Method rq = ''POST''" and b: "Body rq = Some req"
    and n: "fst (CheckOrSetInProgress (Store a) now (TransactionID req)) = NEW"
    and p: "Providers a ''MTN'' = Some p" and bk: "Breakers a ''MTN'' = Some cb"
    and s: "isSuccessful cb = IsSuccessful settings" and c: "state cb = StateClosed"
    and r: "ProcessPayment p rnd (WithTimeout (RContext rq) now (1 * Second)) now req
            = ((res, Some e), t)"
    and e: "e = DeadlineExceeded \<or> e = Canceled"
    by simp_all
  let ?a1 = "a\<lparr>Store := snd (CheckOrSetInProgress (Store a) now (TransactionID req))\<rparr>"
  have p1: "Providers ?a1 ''MTN'' = Some p" and b1: "Breakers ?a1 ''MTN'' = Some cb"
    using p bk by simp_all
  have adm: "admission cb now = (currentState cb now, None)"
    by (rule admission_closed[OF c])
  have ne: "e \<noteq> ErrOpenState" using e by auto
  note out = PayHandler_provider_error[OF p1 b1 adm r ne]
  note rec = PayHandler_records_outcome[OF m b n p bk s c r, unfolded Let_def]
  show "(let handled = PayHandler a rnd now rq;
             cb' = record_outcome (currentState cb now) t False;
             w = counts (currentState (currentState cb now) t)
         in fst handled =
              Written StatusInternalServerError
                (Json_map [(''error'', ''Processing error: '' @ Error e)])
          \<and> (Error e = ''context deadline exceeded'' \<or> Error e = ''context canceled'')
          \<and> (\<forall>tid. CallSetCompleted tid \<notin> set (snd (snd handled)))
          \<and> Breakers (fst (snd handled)) ''MTN'' = Some cb'
          \<and> (state cb' = StateClosed \<longrightarrow>
               counts cb' = w\<lparr>Requests := Requests w + 1, TotalFailures := TotalFailures w + 1\<rparr>)
          \<and> (state cb' \<noteq> StateClosed \<longrightarrow> state cb' = StateOpen))"
    unfolding Let_def
    using rec e by (auto simp: PayHandler_new[OF m b n] out)
qed

theorem provider_call_deadline_and_timeout_witness:
  "(let req = \<lparr>TransactionID = ''TXN-1'', Amount = 20, Currency = ''ZAR'', ProviderKey = ''MTN''\<rparr>;
        rq = \<lparr>Method = ''POST'', Body = Some req,
              RContext = \<lparr>Deadline = None, CancelAt = None\<rparr>\<rparr>;
        rnd = \<lparr>Intn = 100, Float64 = 1 / 2\<rparr>;
        slow = \<lparr>PaymentProvider.Name = ''SLOW'',
                ProcessPayment = (\<lambda>rnd ctx now req.
                  case Done ctx (now + 5 * Second) of
                    Some (t, e) \<Rightarrow> ((None, Some e), max now t)
                  | None \<Rightarrow> ((None, None), now + 5 * Second))\<rparr>;
        a = (newAggregator \<lparr>entries = Map.empty, fault = None\<rparr> 0)
              \<lparr>Providers := [''MTN'' \<mapsto> slow]\<rparr>;
        ctx = \<lparr>Deadline = Some (2 * Second), CancelAt = None\<rparr>;
        handled = PayHandler a rnd Second rq
    in fst (CheckOrSetInProgress (Store a) Second ''TXN-1'') = NEW
     \<and> WithTimeout (RContext rq) Second (1 * Second) = ctx
     \<and> ProcessPayment slow rnd ctx Second req = ((None, Some DeadlineExceeded), 2 * Second)
     \<and> fst handled =
         Written StatusInternalServerError
           (Json_map [(''error'', ''Processing error: context deadline exceeded'')])
     \<and> CallProcessPayment ''SLOW'' ctx req (None, Some DeadlineExceeded) \<in> set (snd (snd handled))
     \<and> Breakers (fst (snd handled)) ''MTN'' =
         Some ((NewCircuitBreaker settings 0)
                 \<lparr>counts := \<lparr>Requests = 1, TotalSuccesses = 0, TotalFailures = 1\<rparr>\<rparr>)
     \<and> Done (ctx\<lparr>CancelAt := Some (Second + 100 * Millisecond)\<rparr>)
           (Second + (Intn rnd + 200) * Millisecond)
         = Some (Second + 100 * Millisecond, Canceled)
     \<and> MTN_ProcessPayment rnd (ctx\<lparr>CancelAt := Some (Second + 100 * Millisecond)\<rparr>) Second req
         = ((None, Some Canceled), Second + 100 * Millisecond))"
proof -
  define req where
    "req = \<lparr>TransactionID = ''TXN-1'', Amount = 20, Currency = ''ZAR'', ProviderKey = ''MTN''\<rparr>"
  define rq where
    "rq = \<lparr>Method = ''POST'', Body = Some req, RContext = \<lparr>Deadline = None, CancelAt = None\<rparr>\<rparr>"
  define rnd where "rnd = \<lparr>Intn = 100, Float64 = 1 / 2\<rparr>"
  define slow where
    "slow = \<lparr>PaymentProvider.Name = ''SLOW'',
             ProcessPayment = (\<lambda>(rnd :: Rand) ctx now (req :: PaymentRequest).
               case Done ctx (now + 5 * Second) of
                 Some (t, e) \<Rightarrow> ((None :: PaymentResponse option, Some e), max now t)
               | None \<Rightarrow> ((None, None), now + 5 * Second))\<rparr>"
  define a where
    "a = (newAggregator \<lparr>entries = Map.empty, fault = None\<rparr> 0)\<lparr>Providers := [''MTN'' \<mapsto> slow]\<rparr>"
  define ctx where "ctx = \<lparr>Deadline = Some (2 * Second), CancelAt = None\<rparr>"
  define ctx2 where "ctx2 = ctx\<lparr>CancelAt := Some (Second + 100 * Millisecond)\<rparr>"
  have m: "Method rq = ''POST''" and b: "Body rq = Some req"
    by (simp_all add: rq_def)
  have n: "fst (CheckOrSetInProgress (Store a) Second ''TXN-1'') = NEW"
    by (simp add: a_def newAggregator_def NEW_def CheckOrSetInProgress_def client_Get_def
        client_SetNX_def live_def)
  then have n1: "fst (CheckOrSetInProgress (Store a) Second (TransactionID req)) = NEW"
    by (simp add: req_def)
  have p: "Providers a ''MTN'' = Some slow"
    and bk: "Breakers a ''MTN'' = Some (NewCircuitBreaker settings 0)"
    by (simp_all add: a_def newAggregator_def)
  have s: "isSuccessful (NewCircuitBreaker settings 0) = IsSuccessful settings"
    and c: "state (NewCircuitBreaker settings 0) = StateClosed"
    by (simp_all add: NewCircuitBreaker_def)
  have w: "WithTimeout (RContext rq) Second (1 * Second) = ctx"
    by (simp add: WithTimeout_def rq_def ctx_def)
  have r: "ProcessPayment slow rnd ctx Second req = ((None, Some DeadlineExceeded), 2 * Second)"
    by (simp add: slow_def ctx_def Done_def)
  have d: "Done ctx2 (Second + (Intn rnd + 200) * Millisecond)
      = Some (Second + 100 * Millisecond, Canceled)"
    by (simp add: ctx2_def ctx_def Done_def rnd_def Second_def Millisecond_def)
  note th = provider_call_deadline_and_timeout[of a rnd Second rq req slow
      "NewCircuitBreaker settings 0" None DeadlineExceeded "2 * Second", unfolded Let_def w]
  from th have 2: "MTN_ProcessPayment rnd ctx2 Second req
      = ((None, Some Canceled), max Second (Second + 100 * Millisecond))"
    using d by blast
  from th m b n1 p bk s c r
  have 3: "fst (PayHandler a rnd Second rq) =
      Written StatusInternalServerError (Json_map [(''error'', ''Processing error: '' @ Error DeadlineExceeded)])
    \<and> Breakers (fst (snd (PayHandler a rnd Second rq))) ''MTN''
        = Some (record_outcome (currentState (NewCircuitBreaker settings 0) Second) (2 * Second) False)"
    by blast
  have e: "record_outcome (currentState (NewCircuitBreaker settings 0) Second) (2 * Second) False
      = (NewCircuitBreaker settings 0)
          \<lparr>counts := \<lparr>Requests = 1, TotalSuccesses = 0, TotalFailures = 1\<rparr>\<rparr>"
    by (simp add: breaker_eval)
  have w': "WithTimeout (RContext rq) Second Second = ctx" using w by simp
  have r': "ProcessPayment slow rnd (WithTimeout (RContext rq) Second (1 * Second)) Second req
      = ((None, Some DeadlineExceeded), 2 * Second)"
    unfolding w by (rule r)
  let ?a1 = "a\<lparr>Store := snd (CheckOrSetInProgress (Store a) Second (TransactionID req))\<rparr>"
  have p1: "Providers ?a1 ''MTN'' = Some slow"
    and b1: "Breakers ?a1 ''MTN'' = Some (NewCircuitBreaker settings 0)"
    using p bk by simp_all
  have ne: "DeadlineExceeded \<noteq> ErrOpenState" by simp
  have nm: "PaymentProvider.Name slow = ''SLOW''" by (simp add: slow_def)
  have 4: "CallProcessPayment ''SLOW'' ctx req (None, Some DeadlineExceeded)
      \<in> set (snd (snd (PayHandler a rnd Second rq)))"
    unfolding PayHandler_new[OF m b n1]
      PayHandler_provider_error[OF p1 b1 admission_closed[OF c] r' ne]
    by (simp add: nm w')
  show ?thesis
    unfolding Let_def req_def[symmetric] rq_def[symmetric] rnd_def[symmetric]
      slow_def[symmetric] a_def[symmetric] ctx_def[symmetric] ctx2_def[symmetric]
    using n w r 2 3 4 d by (simp add: e)
qed

subsection \<open>Completion\<close>

lemma PayHandler_provider_completes:
  assumes "\<forall>tid. CallSetCompleted tid \<notin> set evs"
    and "\<forall>n c q x. CallProcessPayment n c q x \<notin> set evs"
  shows "(\<exists>tid. CallSetCompleted tid \<in> set (snd (snd (PayHandler_provider a rnd now rq req evs))))
     \<longleftrightarrow> (\<exists>n c q res. CallProcessPayment n c q (Some res, None)
                      \<in> set (snd (snd (PayHandler_provider a rnd now rq req evs)))
                    \<and> Status res = ''SUCCESS'')"
proof (cases "Providers a ''MTN''")
  case None
  with assms show ?thesis by (simp add: PayHandler_provider_not_found)
next
  case (Some p)
  note p = this
  show ?thesis
  proof (cases "Breakers a ''MTN''")
    case None
    with assms p show ?thesis by (simp add: PayHandler_provider_def Let_def)
  next
    case (Some cb)
    note b = this
    obtain cb1 e where adm: "admission cb now = (cb1, e)" by (cases "admission cb now")
    show ?thesis
    proof (cases e)
      case None
      obtain res err t where r:
        "ProcessPayment p rnd (WithTimeout (RContext rq) now (1 * Second)) now req = ((res, err), t)"
        by (cases "ProcessPayment p rnd (WithTimeout (RContext rq) now (1 * Second)) now req") auto
      show ?thesis
        unfolding PayHandler_provider_called[OF p b adm[unfolded None] r]
        using assms by (auto simp: Let_def split: if_splits option.splits)
    next
      case (Some e')
      show ?thesis
        unfolding PayHandler_provider_refused[OF p b adm[unfolded Some]]
        using assms by auto
    qed
  qed
qed

lemma PayHandler_completes:
  "(\<exists>tid. CallSetCompleted tid \<in> set (snd (snd (PayHandler a rnd now rq))))
     \<longleftrightarrow> (\<exists>n c q res. CallProcessPayment n c q (Some res, None)
                      \<in> set (snd (snd (PayHandler a rnd now rq)))
                    \<and> Status res = ''SUCCESS'')"
proof (cases "Method rq = ''POST''")
  case False
  then show ?thesis by (simp add: PayHandler_def)
next
  case True
  note m = this
  show ?thesis
  proof (cases "Body rq")
    case None
    with m show ?thesis by (simp add: PayHandler_def)
  next
    case (Some req)
    note b = this
    obtain isDuplicate err r' where
      adm: "CheckOrSetInProgress (Store a) now (TransactionID req) = ((isDuplicate, err), r')"
      by (cases "CheckOrSetInProgress (Store a) now (TransactionID req)") auto
    have "(\<exists>tid. CallSetCompleted tid \<in> set (snd (snd
              (PayHandler_provider (a\<lparr>Store := r'\<rparr>) rnd now rq req
                 [CallCheckOrSetInProgress (TransactionID req)]))))
     \<longleftrightarrow> (\<exists>n c q res. CallProcessPayment n c q (Some res, None)
                      \<in> set (snd (snd (PayHandler_provider (a\<lparr>Store := r'\<rparr>) rnd now rq req
                 [CallCheckOrSetInProgress (TransactionID req)])))
                    \<and> Status res = ''SUCCESS'')"
      by (rule PayHandler_provider_completes) simp_all
    then show ?thesis
      unfolding PayHandler_admitted[OF m b adm] by (auto split: if_splits)
  qed
qed

lemma SetCompleted_store:
  "fault r = None \<Longrightarrow>
     SetCompleted r t tid =
       (None, r\<lparr>entries := (entries r)(''txn:'' @ tid \<mapsto> (StatusCompleted, t + CompletedExpiry))\<rparr>)"
  by (simp add: SetCompleted_def client_Set_def)

text \<open>
  C8. In every run of the handler, \<^verbatim>\<open>SetCompleted\<close> is called if and only if a provider
  call returned a response with Status SUCCESS and no error. For a transaction admitted
  as NEW whose provider call is admitted by the breaker: on such a success the handler
  answers 200 with the response marked \<^verbatim>\<open>IsIdempotent\<close>, and \<^verbatim>\<open>SetCompleted\<close> has
  overwritten the key with COMPLETED expiring 24 hours after the provider returned (if
  the store can be reached); on any other result of the provider call (an error, a
  timeout, a response that is not SUCCESS) \<^verbatim>\<open>SetCompleted\<close> is not called and the store
  still holds the IN_PROGRESS lease with its 10 s expiry.
\<close>

theorem complete_iff_success:
  "((\<exists>tid. CallSetCompleted tid \<in> set (snd (snd (PayHandler a rnd now rq))))
      \<longleftrightarrow> (\<exists>n c q res. CallProcessPayment n c q (Some res, None)
                       \<in> set (snd (snd (PayHandler a rnd now rq)))
                     \<and> Status res = ''SUCCESS''))
   \<and> CompletedExpiry = 24 * 60 * 60 * Second
   \<and> (Method rq = ''POST'' \<and> Body rq = Some req
        \<and> fst (CheckOrSetInProgress (Store a) now (TransactionID req)) = NEW
        \<and> Providers a ''MTN'' = Some p \<and> Breakers a ''MTN'' = Some cb
        \<and> admission cb now = (cb1, None)
        \<and> ProcessPayment p rnd (WithTimeout (RContext rq) now (1 * Second)) now req
            = ((res, err), t) \<longrightarrow>
        (let store1 = snd (CheckOrSetInProgress (Store a) now (TransactionID req));
             handled = PayHandler a rnd now rq;
             key = ''txn:'' @ TransactionID req
         in (\<forall>r. res = Some r \<and> Status r = ''SUCCESS'' \<and> err = None \<longrightarrow>
                fst handled = Written StatusOK (Json_response (r\<lparr>IsIdempotent := True\<rparr>))
              \<and> CallSetCompleted (TransactionID req) \<in> set (snd (snd handled))
              \<and> Store (fst (snd handled)) = snd (SetCompleted store1 t (TransactionID req))
              \<and> (fault store1 = None \<longrightarrow>
                   entries (Store (fst (snd handled))) key
                     = Some (StatusCompleted, t + CompletedExpiry)))
          \<and> (\<not> (\<exists>r. res = Some r \<and> Status r = ''SUCCESS'' \<and> err = None) \<longrightarrow>
                (\<forall>tid. CallSetCompleted tid \<notin> set (snd (snd handled)))
              \<and> Store (fst (snd handled)) = store1
              \<and> entries store1 key = Some (StatusInProgress, now + InProgressExpiry))))"
proof (intro conjI impI)
  show "(\<exists>tid. CallSetCompleted tid \<in> set (snd (snd (PayHandler a rnd now rq))))
      \<longleftrightarrow> (\<exists>n c q res. CallProcessPayment n c q (Some res, None)
                       \<in> set (snd (snd (PayHandler a rnd now rq)))
                     \<and> Status res = ''SUCCESS'')"
    by (rule PayHandler_completes)
  show "CompletedExpiry = 24 * 60 * 60 * Second"
    by (simp add: CompletedExpiry_def Hour_def Minute_def)
next
  assume h: "Method rq = ''POST'' \<and> Body rq = Some req
        \<and> fst (CheckOrSetInProgress (Store a) now (TransactionID req)) = NEW
        \<and> Providers a ''MTN'' = Some p \<and> Breakers a ''MTN'' = Some cb
        \<and> admission cb now = (cb1, None)
        \<and> ProcessPayment p rnd (WithTimeout (RContext rq) now (1 * Second)) now req
            = ((res, err), t)"
  then have m: "Method rq = ''POST''" and b: "Body rq = Some req"
    and n: "fst (CheckOrSetInProgress (Store a) now (TransactionID req)) = NEW"
    and p: "Providers a ''MTN'' = Some p" and bk: "Breakers a ''MTN'' = Some cb"
    and adm: "admission cb now = (cb1, None)"
    and r: "ProcessPayment p rnd (WithTimeout (RContext rq) now (1 * Second)) now req
            = ((res, err), t)"
    by simp_all
  let ?s1 = "snd (CheckOrSetInProgress (Store a) now (TransactionID req))"
  let ?a1 = "a\<lparr>Store := ?s1\<rparr>"
  have p1: "Providers ?a1 ''MTN'' = Some p" and b1: "Breakers ?a1 ''MTN'' = Some cb"
    using p bk by simp_all
  note called = PayHandler_provider_called[OF p1 b1 adm r,
      of "[CallCheckOrSetInProgress (TransactionID req)]"]
  show "(let store1 = snd (CheckOrSetInProgress (Store a) now (TransactionID req));
             handled = PayHandler a rnd now rq;
             key = ''txn:'' @ TransactionID req
         in (\<forall>r. res = Some r \<and> Status r = ''SUCCESS'' \<and> err = None \<longrightarrow>
                fst handled = Written StatusOK (Json_response (r\<lparr>IsIdempotent := True\<rparr>))
              \<and> CallSetCompleted (TransactionID req) \<in> set (snd (snd handled))
              \<and> Store (fst (snd handled)) = snd (SetCompleted store1 t (TransactionID req))
              \<and> (fault store1 = None \<longrightarrow>
                   entries (Store (fst (snd handled))) key
                     = Some (StatusCompleted, t + CompletedExpiry)))
          \<and> (\<not> (\<exists>r. res = Some r \<and> Status r = ''SUCCESS'' \<and> err = None) \<longrightarrow>
                (\<forall>tid. CallSetCompleted tid \<notin> set (snd (snd handled)))
              \<and> Store (fst (snd handled)) = store1
              \<and> entries store1 key = Some (StatusInProgress, now + InProgressExpiry)))"
    unfolding Let_def PayHandler_new[OF m b n] called
    using NEW_lease[OF n]
    by (auto simp: Let_def SetCompleted_store split: option.splits)
qed

theorem complete_iff_success_witness:
  "(let req = \<lparr>TransactionID = ''T1'', Amount = 20, Currency = ''ZAR'', ProviderKey = ''MTN''\<rparr>;
        rq = \<lparr>Method = ''POST'', Body = Some req,
              RContext = \<lparr>Deadline = None, CancelAt = None\<rparr>\<rparr>;
        a = newAggregator \<lparr>entries = Map.empty, fault = None\<rparr> 0;
        ctx = WithTimeout (RContext rq) Second (1 * Second);
        good = \<lparr>Intn = 100, Float64 = 1 / 2\<rparr>;
        bad = \<lparr>Intn = 100, Float64 = 1 / 20\<rparr>;
        paid = \<lparr>Status = ''SUCCESS'', ReferenceID = ''MTN-1300000000'', ProviderName = ''MTN_MOMO'',
                IsIdempotent = False, Message = ''Transaction processed successfully.''\<rparr>;
        failed = \<lparr>Status = ''FAILED'', ReferenceID = ''N/A'', ProviderName = ''MTN_MOMO'',
                  IsIdempotent = False,
                  Message = ''Provider internal server error (simulated 500)''\<rparr>
    in fst (CheckOrSetInProgress (Store a) Second ''T1'') = NEW
     \<and> admission (NewCircuitBreaker settings 0) Second = (NewCircuitBreaker settings 0, None)
     \<and> ProcessPayment NewMTNProvider good ctx Second req = ((Some paid, None), 1300000000)
     \<and> fst (PayHandler a good Second rq) =
         Written StatusOK (Json_response (paid\<lparr>IsIdempotent := True\<rparr>))
     \<and> CallSetCompleted ''T1'' \<in> set (snd (snd (PayHandler a good Second rq)))
     \<and> entries (Store (fst (snd (PayHandler a good Second rq)))) ''txn:T1''
         = Some (''COMPLETED'', 1300000000 + 24 * 60 * 60 * Second)
     \<and> ProcessPayment NewMTNProvider bad ctx Second req = ((Some failed, None), 1300000000)
     \<and> CallSetCompleted ''T1'' \<notin> set (snd (snd (PayHandler a bad Second rq)))
     \<and> entries (Store (fst (snd (PayHandler a bad Second rq)))) ''txn:T1''
         = Some (''IN_PROGRESS'', 11 * Second))"
proof -
  define req where
    "req = \<lparr>TransactionID = ''T1'', Amount = 20, Currency = ''ZAR'', ProviderKey = ''MTN''\<rparr>"
  define rq where
    "rq = \<lparr>Method = ''POST'', Body = Some req, RContext = \<lparr>Deadline = None, CancelAt = None\<rparr>\<rparr>"
  define a where "a = newAggregator \<lparr>entries = Map.empty, fault = None\<rparr> 0"
  define ctx where "ctx = WithTimeout (RContext rq) Second (1 * Second)"
  define good where "good = \<lparr>Intn = 100, Float64 = 1 / 2\<rparr>"
  define bad where "bad = \<lparr>Intn = 100, Float64 = 1 / 20\<rparr>"
  define paid where
    "paid = \<lparr>Status = ''SUCCESS'', ReferenceID = ''MTN-1300000000'', ProviderName = ''MTN_MOMO'',
             IsIdempotent = False, Message = ''Transaction processed successfully.''\<rparr>"
  define failed where
    "failed = \<lparr>Status = ''FAILED'', ReferenceID = ''N/A'', ProviderName = ''MTN_MOMO'',
               IsIdempotent = False,
               Message = ''Provider internal server error (simulated 500)''\<rparr>"
  have m: "Method rq = ''POST''" and b: "Body rq = Some req"
    by (simp_all add: rq_def)
  have n0: "CheckOrSetInProgress (Store a) Second ''T1'' =
      (NEW, \<lparr>entries = [''txn:T1'' \<mapsto> (''IN_PROGRESS'', 11 * Second)], fault = None\<rparr>)"
    by (simp add: a_def newAggregator_def NEW_def CheckOrSetInProgress_def client_Get_def
        client_SetNX_def live_def StatusInProgress_def InProgressExpiry_def)
  have n: "fst (CheckOrSetInProgress (Store a) Second (TransactionID req)) = NEW"
    by (simp add: n0 req_def)
  have f: "fault (snd (CheckOrSetInProgress (Store a) Second (TransactionID req))) = None"
    by (simp add: n0 req_def)
  have p: "Providers a ''MTN'' = Some NewMTNProvider"
    and bk: "Breakers a ''MTN'' = Some (NewCircuitBreaker settings 0)"
    by (simp_all add: a_def newAggregator_def)
  have adm: "admission (NewCircuitBreaker settings 0) Second = (NewCircuitBreaker settings 0, None)"
    by (simp add: breaker_eval)
  have r1: "ProcessPayment NewMTNProvider good ctx Second req = ((Some paid, None), 1300000000)"
    by (simp add: NewMTNProvider_def MTN_ProcessPayment_def WithTimeout_def Done_def rq_def
        ctx_def good_def paid_def float64_tenth Second_def Millisecond_def Sprintf_d.simps)
  have r2: "ProcessPayment NewMTNProvider bad ctx Second req = ((Some failed, None), 1300000000)"
    by (simp add: NewMTNProvider_def MTN_ProcessPayment_def WithTimeout_def Done_def rq_def
        ctx_def bad_def failed_def float64_tenth Second_def Millisecond_def)
  have s1: "Status paid = ''SUCCESS''" and s2: "Status failed \<noteq> ''SUCCESS''"
    by (simp_all add: paid_def failed_def)
  note t1 = complete_iff_success[of a good Second rq req NewMTNProvider
      "NewCircuitBreaker settings 0" "NewCircuitBreaker settings 0" "Some paid" None 1300000000,
      unfolded Let_def ctx_def[symmetric], THEN conjunct2, THEN conjunct2, rule_format]
  note t2 = complete_iff_success[of a bad Second rq req NewMTNProvider
      "NewCircuitBreaker settings 0" "NewCircuitBreaker settings 0" "Some failed" None 1300000000,
      unfolded Let_def ctx_def[symmetric], THEN conjunct2, THEN conjunct2, rule_format]
  have h1: "Method rq = ''POST'' \<and> Body rq = Some req
        \<and> fst (CheckOrSetInProgress (Store a) Second (TransactionID req)) = NEW
        \<and> Providers a ''MTN'' = Some NewMTNProvider
        \<and> Breakers a ''MTN'' = Some (NewCircuitBreaker settings 0)
        \<and> admission (NewCircuitBreaker settings 0) Second = (NewCircuitBreaker settings 0, None)
        \<and> ProcessPayment NewMTNProvider good ctx Second req = ((Some paid, None), 1300000000)"
    using m b n p bk adm r1 by simp
  have h2: "Method rq = ''POST'' \<and> Body rq = Some req
        \<and> fst (CheckOrSetInProgress (Store a) Second (TransactionID req)) = NEW
        \<and> Providers a ''MTN'' = Some NewMTNProvider
        \<and> Breakers a ''MTN'' = Some (NewCircuitBreaker settings 0)
        \<and> admission (NewCircuitBreaker settings 0) Second = (NewCircuitBreaker settings 0, None)
        \<and> ProcessPayment NewMTNProvider bad ctx Second req = ((Some failed, None), 1300000000)"
    using m b n p bk adm r2 by simp
  note u1 = t1[OF h1, THEN conjunct1, rule_format, of paid]
  from u1 s1 f
  have g1: "fst (PayHandler a good Second rq) =
         Written StatusOK (Json_response (paid\<lparr>IsIdempotent := True\<rparr>))"
    and g2: "CallSetCompleted (TransactionID req) \<in> set (snd (snd (PayHandler a good Second rq)))"
    and g3: "entries (Store (fst (snd (PayHandler a good Second rq)))) (''txn:'' @ TransactionID req)
         = Some (StatusCompleted, 1300000000 + CompletedExpiry)"
    by blast+
  from t2[OF h2] s2
  have b1: "\<forall>tid. CallSetCompleted tid \<notin> set (snd (snd (PayHandler a bad Second rq)))"
    and b2: "Store (fst (snd (PayHandler a bad Second rq)))
        = snd (CheckOrSetInProgress (Store a) Second (TransactionID req))"
    by simp_all
  show ?thesis
    unfolding Let_def req_def[symmetric] rq_def[symmetric] a_def[symmetric] ctx_def[symmetric]
      good_def[symmetric] bad_def[symmetric] paid_def[symmetric] failed_def[symmetric]
    using n0 adm r1 r2 g1 g2 g3 b1 b2
    by (simp add: req_def StatusCompleted_def CompletedExpiry_def Hour_def Minute_def)
qed

subsection \<open>The breakers of the aggregator\<close>

lemma PayHandler_provider_no_breaker:
  "Providers a ''MTN'' = Some p \<Longrightarrow> Breakers a ''MTN'' = None \<Longrightarrow>
     PayHandler_provider a rnd now rq req evs =
       (Panicked, a,
        evs @ [LogPrintf ''Warning: No circuit breaker found for MTN'',
               LogPrintf (''Starting transaction '' @ TransactionID req @ '' via '' @
                          PaymentProvider.Name p)])"
  by (simp add: PayHandler_provider_def Let_def)

lemma PayHandler_provider_frame:
  "Providers (fst (snd (PayHandler_provider a rnd now rq req evs))) = Providers a
   \<and> (Breakers (fst (snd (PayHandler_provider a rnd now rq req evs))) = Breakers a
      \<or> (\<exists>cb cb'. Breakers a ''MTN'' = Some cb
            \<and> Breakers (fst (snd (PayHandler_provider a rnd now rq req evs)))
                = (Breakers a)(''MTN'' \<mapsto> cb')))"
proof (cases "Providers a ''MTN''")
  case None
  then show ?thesis by (simp add: PayHandler_provider_not_found)
next
  case (Some p)
  note p = this
  show ?thesis
  proof (cases "Breakers a ''MTN''")
    case None
    show ?thesis unfolding PayHandler_provider_no_breaker[OF p None] by simp
  next
    case (Some cb)
    note b = this
    obtain cb1 e where adm: "admission cb now = (cb1, e)" by (cases "admission cb now")
    show ?thesis
    proof (cases e)
      case None
      obtain res err t where r:
        "ProcessPayment p rnd (WithTimeout (RContext rq) now (1 * Second)) now req = ((res, err), t)"
        by (cases "ProcessPayment p rnd (WithTimeout (RContext rq) now (1 * Second)) now req") auto
      show ?thesis
        unfolding PayHandler_provider_called[OF p b adm[unfolded None] r]
        using b by (auto simp: Let_def split: option.splits)
    next
      case (Some e')
      show ?thesis
        unfolding PayHandler_provider_refused[OF p b adm[unfolded Some]]
        using b by auto
    qed
  qed
qed

lemma PayHandler_frame:
  "Providers (fst (snd (PayHandler a rnd now rq))) = Providers a
   \<and> (Breakers (fst (snd (PayHandler a rnd now rq))) = Breakers a
      \<or> (\<exists>cb cb'. Breakers a ''MTN'' = Some cb
            \<and> Breakers (fst (snd (PayHandler a rnd now rq))) = (Breakers a)(''MTN'' \<mapsto> cb')))"
proof (cases "Method rq = ''POST''")
  case False
  then show ?thesis by (simp add: PayHandler_def)
next
  case True
  note m = this
  show ?thesis
  proof (cases "Body rq")
    case None
    with m show ?thesis by (simp add: PayHandler_def)
  next
    case (Some req)
    obtain isDuplicate err r' where
      adm: "CheckOrSetInProgress (Store a) now (TransactionID req) = ((isDuplicate, err), r')"
      by (cases "CheckOrSetInProgress (Store a) now (TransactionID req)") auto
    show ?thesis
      unfolding PayHandler_admitted[OF m Some adm]
      using PayHandler_provider_frame[of "a\<lparr>Store := r'\<rparr>" rnd now rq req
          "[CallCheckOrSetInProgress (TransactionID req)]"]
      by (auto split: if_splits)
  qed
qed

lemma PayHandler_keeps_breaker:
  assumes "Providers a = [''MTN'' \<mapsto> NewMTNProvider]" and "dom (Breakers a) = {''MTN''}"
  shows "Providers (fst (snd (PayHandler a rnd now rq))) = [''MTN'' \<mapsto> NewMTNProvider]
       \<and> dom (Breakers (fst (snd (PayHandler a rnd now rq)))) = {''MTN''}"
proof -
  let ?a' = "fst (snd (PayHandler a rnd now rq))"
  from PayHandler_frame[of a rnd now rq]
  have p: "Providers ?a' = Providers a"
    and b: "Breakers ?a' = Breakers a \<or>
      (\<exists>cb cb'. Breakers a ''MTN'' = Some cb \<and> Breakers ?a' = (Breakers a)(''MTN'' \<mapsto> cb'))"
    by blast+
  from b have "dom (Breakers ?a') = {''MTN''}"
  proof
    assume "Breakers ?a' = Breakers a"
    then show ?thesis by (simp only: assms(2))
  next
    assume "\<exists>cb cb'. Breakers a ''MTN'' = Some cb \<and> Breakers ?a' = (Breakers a)(''MTN'' \<mapsto> cb')"
    then obtain cb' where "Breakers ?a' = (Breakers a)(''MTN'' \<mapsto> cb')" by blast
    then have "dom (Breakers ?a') = insert ''MTN'' (dom (Breakers a))" by simp
    then show ?thesis by (simp add: assms(2))
  qed
  with p assms(1) show ?thesis by simp
qed

lemma serve_keeps_breaker:
  assumes "Providers a = [''MTN'' \<mapsto> NewMTNProvider]" and "dom (Breakers a) = {''MTN''}"
  shows "Providers (serve a inputs) = [''MTN'' \<mapsto> NewMTNProvider]
       \<and> dom (Breakers (serve a inputs)) = {''MTN''}"
  using assms
proof (induction inputs arbitrary: a)
  case Nil
  then show ?case by simp
next
  case (Cons x xs)
  obtain rnd now rq where x: "x = (rnd, now, rq)" by (cases x)
  from PayHandler_keeps_breaker[OF Cons.prems, of rnd now rq]
  show ?case unfolding x by (simp add: Cons.IH)
qed

lemma MTN_never_nil:
  "fst (MTN_ProcessPayment rnd ctx now req) \<noteq> (None, None)"
  by (simp add: MTN_ProcessPayment_def Let_def split: option.splits)

lemma warning_differs:
  "''Warning: No circuit breaker found for MTN'' \<noteq> ''Starting transaction '' @ x"
  "''Warning: No circuit breaker found for MTN'' \<noteq> ''Circuit Breaker OPEN for '' @ x"
  "''Warning: No circuit breaker found for MTN'' \<noteq> ''Provider/CB Error: '' @ x"
  "''Warning: No circuit breaker found for MTN'' \<noteq> ''Warning: Failed to set transaction '' @ x"
  by simp_all

lemma PayHandler_provider_with_breaker:
  assumes "Providers a ''MTN'' = Some NewMTNProvider" and "Breakers a ''MTN'' = Some cb"
    and "LogPrintf ''Warning: No circuit breaker found for MTN'' \<notin> set evs"
  shows "fst (PayHandler_provider a rnd now rq req evs) \<noteq> Panicked
       \<and> LogPrintf ''Warning: No circuit breaker found for MTN''
           \<notin> set (snd (snd (PayHandler_provider a rnd now rq req evs)))"
proof -
  let ?W = "''Warning: No circuit breaker found for MTN''"
  note w = assms(3)
  obtain cb1 e where adm: "admission cb now = (cb1, e)" by (cases "admission cb now")
  show ?thesis
  proof (cases e)
    case None
    obtain res err t where r:
      "ProcessPayment NewMTNProvider rnd (WithTimeout (RContext rq) now (1 * Second)) now req
         = ((res, err), t)"
      by (cases "ProcessPayment NewMTNProvider rnd (WithTimeout (RContext rq) now (1 * Second)) now req")
        auto
    have nn: "res = None \<Longrightarrow> err \<noteq> None"
      using r MTN_never_nil[of rnd "WithTimeout (RContext rq) now (1 * Second)" now req]
      by (auto simp: NewMTNProvider_def)
    show "fst (PayHandler_provider a rnd now rq req evs) \<noteq> Panicked
       \<and> LogPrintf ?W \<notin> set (snd (snd (PayHandler_provider a rnd now rq req evs)))"
    proof (cases err)
      case (Some e1)
      then show ?thesis
        unfolding PayHandler_provider_called[OF assms(1,2) adm[unfolded None] r]
        using w by (simp add: Let_def)
    next
      case None
      with nn obtain r1 where r1: "res = Some r1" by (cases res) auto
      show ?thesis
        unfolding PayHandler_provider_called[OF assms(1,2) adm[unfolded \<open>e = None\<close>] r]
        using w by (simp add: Let_def None r1 split: option.splits)
    qed
  next
    case (Some e')
    show "fst (PayHandler_provider a rnd now rq req evs) \<noteq> Panicked
       \<and> LogPrintf ?W \<notin> set (snd (snd (PayHandler_provider a rnd now rq req evs)))"
      unfolding PayHandler_provider_refused[OF assms(1,2) adm[unfolded Some]]
      using w by simp
  qed
qed

lemma PayHandler_with_breaker:
  assumes "Providers a ''MTN'' = Some NewMTNProvider" and "Breakers a ''MTN'' = Some cb"
  shows "fst (PayHandler a rnd now rq) \<noteq> Panicked
       \<and> LogPrintf ''Warning: No circuit breaker found for MTN''
           \<notin> set (snd (snd (PayHandler a rnd now rq)))"
proof (cases "Method rq = ''POST''")
  case False
  then show ?thesis by (simp add: PayHandler_def)
next
  case True
  note m = this
  show ?thesis
  proof (cases "Body rq")
    case None
    with m show ?thesis by (simp add: PayHandler_def)
  next
    case (Some req)
    obtain isDuplicate err r' where
      adm: "CheckOrSetInProgress (Store a) now (TransactionID req) = ((isDuplicate, err), r')"
      by (cases "CheckOrSetInProgress (Store a) now (TransactionID req)") auto
    have p: "Providers (a\<lparr>Store := r'\<rparr>) ''MTN'' = Some NewMTNProvider"
      and b: "Breakers (a\<lparr>Store := r'\<rparr>) ''MTN'' = Some cb"
      using assms by simp_all
    have pw: "fst (PayHandler_provider (a\<lparr>Store := r'\<rparr>) rnd now rq req
          [CallCheckOrSetInProgress (TransactionID req)]) \<noteq> Panicked
       \<and> LogPrintf ''Warning: No circuit breaker found for MTN''
           \<notin> set (snd (snd (PayHandler_provider (a\<lparr>Store := r'\<rparr>) rnd now rq req
          [CallCheckOrSetInProgress (TransactionID req)])))"
      by (rule PayHandler_provider_with_breaker[OF p b]) simp
    show ?thesis
    proof (cases "case err of Some e \<Rightarrow> Error e = ''transaction already in progress''
                  | None \<Rightarrow> False")
      case True
      then show ?thesis unfolding PayHandler_admitted[OF m Some adm] by simp
    next
      case False
      note f = this
      show ?thesis
      proof (cases isDuplicate)
        case True
        with f show ?thesis unfolding PayHandler_admitted[OF m Some adm] by simp
      next
        case False
        with f pw show ?thesis unfolding PayHandler_admitted[OF m Some adm] by simp
      qed
    qed
  qed
qed

text \<open>
  C10. In the aggregator \<^verbatim>\<open>newAggregator\<close> builds, and after any sequence of requests it
  has served, the only provider key is \<^verbatim>\<open>"MTN"\<close> and every provider key has a breaker.
  So no request reaches the branch for a missing breaker: the warning is never logged
  and \<^verbatim>\<open>Execute\<close> is never called on a nil breaker (the handler does not panic).
\<close>

theorem newAggregator_breaker_for_every_provider:
  "(let a = serve (newAggregator redisStore t0) inputs;
        handled = PayHandler a rnd now rq
    in dom (Providers a) = {''MTN''}
     \<and> (\<forall>k. k \<in> dom (Providers a) \<longrightarrow> k \<in> dom (Breakers a))
     \<and> LogPrintf ''Warning: No circuit breaker found for MTN'' \<notin> set (snd (snd handled))
     \<and> fst handled \<noteq> Panicked)"
proof -
  define a where "a = serve (newAggregator redisStore t0) inputs"
  have "Providers (newAggregator redisStore t0) = [''MTN'' \<mapsto> NewMTNProvider]"
    and "dom (Breakers (newAggregator redisStore t0)) = {''MTN''}"
    by (simp_all add: newAggregator_def)
  from serve_keeps_breaker[OF this, of inputs]
  have p: "Providers a = [''MTN'' \<mapsto> NewMTNProvider]" and d: "dom (Breakers a) = {''MTN''}"
    unfolding a_def by blast+
  have "''MTN'' \<in> dom (Breakers a)" unfolding d by (rule insertI1)
  then obtain cb where b: "Breakers a ''MTN'' = Some cb" by blast
  have p1: "Providers a ''MTN'' = Some NewMTNProvider" unfolding p by simp
  have dp: "dom (Providers a) = {''MTN''}" unfolding p by simp
  have sub: "\<forall>k. k \<in> dom (Providers a) \<longrightarrow> k \<in> dom (Breakers a)"
    unfolding dp d by blast
  note h = PayHandler_with_breaker[OF p1 b, of rnd now rq]
  show ?thesis
    unfolding Let_def a_def[symmetric]
    using dp sub h by blast
qed

theorem newAggregator_breaker_for_every_provider_witness:
  "(let rq = \<lparr>Method = ''POST'',
              Body = Some \<lparr>TransactionID = ''T1'', Amount = 20, Currency = ''ZAR'',
                           ProviderKey = ''MTN''\<rparr>,
              RContext = \<lparr>Deadline = None, CancelAt = None\<rparr>\<rparr>;
        rnd = \<lparr>Intn = 100, Float64 = 1 / 2\<rparr>;
        a = serve (newAggregator \<lparr>entries = Map.empty, fault = None\<rparr> 0) [(rnd, Second, rq)]
    in ''MTN'' \<in> dom (Providers a) \<and> ''MTN'' \<in> dom (Breakers a)
     \<and> LogPrintf ''Warning: No circuit breaker found for MTN''
         \<notin> set (snd (snd (PayHandler a rnd (2 * Second) rq)))
     \<and> fst (PayHandler a rnd (2 * Second) rq) \<noteq> Panicked)"
proof -
  define rq where
    "rq = \<lparr>Method = ''POST'',
           Body = Some \<lparr>TransactionID = ''T1'', Amount = 20, Currency = ''ZAR'',
                        ProviderKey = ''MTN''\<rparr>,
           RContext = \<lparr>Deadline = None, CancelAt = None\<rparr>\<rparr>"
  define rnd where "rnd = \<lparr>Intn = 100, Float64 = 1 / 2\<rparr>"
  define a where
    "a = serve (newAggregator \<lparr>entries = Map.empty, fault = None\<rparr> 0) [(rnd, Second, rq)]"
  note th = newAggregator_breaker_for_every_provider[
      of "\<lparr>entries = Map.empty, fault = None\<rparr>" 0 "[(rnd, Second, rq)]" rnd "2 * Second" rq,
      unfolded Let_def a_def[symmetric]]
  from th have d: "dom (Providers a) = {''MTN''}"
    and s: "\<forall>k. k \<in> dom (Providers a) \<longrightarrow> k \<in> dom (Breakers a)"
    and r: "LogPrintf ''Warning: No circuit breaker found for MTN''
         \<notin> set (snd (snd (PayHandler a rnd (2 * Second) rq)))
     \<and> fst (PayHandler a rnd (2 * Second) rq) \<noteq> Panicked"
    by blast+
  have m: "''MTN'' \<in> dom (Providers a)" unfolding d by (rule insertI1)
  with s have "''MTN'' \<in> dom (Breakers a)" by blast
  with m r show ?thesis
    unfolding Let_def rq_def[symmetric] rnd_def[symmetric] a_def[symmetric] by blast
qed

subsection \<open>Concurrent idempotency checks\<close>

lemma held_live:
  "lease_held r key t0 \<Longrightarrow> t < t0 + InProgressExpiry \<Longrightarrow> live r t key = Some StatusInProgress"
  by (auto simp: lease_held_def live_def split: option.splits)

lemma dead_later:
  "live r t0 key = None \<Longrightarrow> t0 \<le> t \<Longrightarrow> live r t key = None"
  by (auto simp: live_def split: option.splits if_splits)

lemma status_differ: "StatusInProgress \<noteq> StatusCompleted"
  by (simp add: StatusInProgress_def StatusCompleted_def)

text \<open>One step of one caller, by what the store holds.\<close>

lemma admit_step_held:
  assumes "lease_held r (''txn:'' @ tid) t0" and "t < t0 + InProgressExpiry"
    and "admit_step tid t pc r = (pc', r')"
  shows "r' = r" and "pc' = Returned NEW \<longleftrightarrow> pc = Returned NEW"
    and "fault r = None \<Longrightarrow> pc = AtSetNX \<Longrightarrow> pc' = Returned DUPLICATE_IN_PROGRESS"
    and "fault r = None \<Longrightarrow> pc = AtGet \<Longrightarrow> pc' = AtSetNX"
  using assms(3) held_live[OF assms(1,2)] status_differ
  by (auto simp: Let_def admit_step_def client_Get_def client_SetNX_def NEW_def DUPLICATE_IN_PROGRESS_def
      split: admit_pc.splits option.splits if_splits)

lemma admit_step_new:
  assumes "admit_step tid t pc r = (Returned NEW, r')" and "pc \<noteq> Returned NEW" and "t0 \<le> t"
  shows "lease_held r' (''txn:'' @ tid) t0" and "live r t (''txn:'' @ tid) = None"
  using assms
  by (auto simp: Let_def admit_step_def client_Get_def client_SetNX_def NEW_def lease_held_def
      split: admit_pc.splits option.splits if_splits)

lemma admit_step_no_new:
  assumes "admit_step tid t pc r = (pc', r')" and "pc' \<noteq> Returned NEW"
  shows "r' = r"
  using assms
  by (auto simp: Let_def admit_step_def client_Get_def client_SetNX_def NEW_def
      split: admit_pc.splits option.splits if_splits)

lemma admit_step_dead:
  assumes "fault r = None" and "live r t (''txn:'' @ tid) = None"
    and "admit_step tid t pc r = (pc', r')" and "pending pc"
  shows "fault r' = None"
    and "pc = AtGet \<Longrightarrow> pc' = AtSetNX \<and> r' = r"
    and "pc = AtSetNX \<Longrightarrow> pc' = Returned NEW"
  using assms
  by (auto simp: Let_def admit_step_def client_Get_def client_SetNX_def NEW_def pending_def
      split: admit_pc.splits option.splits if_splits)

lemma admit_step_returned: "admit_step tid t (Returned x) r = (Returned x, r)"
  by (simp add: admit_step_def)

lemma admit_step_fault: "admit_step tid t pc r = (pc', r') \<Longrightarrow> fault r' = fault r"
  by (auto simp: Let_def admit_step_def client_Get_def client_SetNX_def
      split: admit_pc.splits option.splits if_splits)

lemma no_two_new_step:
  assumes "no_two_new (''txn:'' @ tid) t0 (pc1, pc2, r)"
    and "t0 \<le> t" and "t < t0 + InProgressExpiry"
    and "admit_step tid t pc r = (pc', r')"
  shows "pc = pc1 \<Longrightarrow> no_two_new (''txn:'' @ tid) t0 (pc', pc2, r')"
    and "pc = pc2 \<Longrightarrow> no_two_new (''txn:'' @ tid) t0 (pc1, pc', r')"
proof -
  let ?key = "''txn:'' @ tid"
  have step: "no_two_new ?key t0 (if first then (pc', other, r') else (other, pc', r'))"
    if inv: "no_two_new ?key t0 (if first then (pc, other, r) else (other, pc, r))"
    for first other
  proof (cases "pc = Returned NEW \<or> other = Returned NEW")
    case True
    with inv have h: "lease_held r ?key t0" and n: "\<not> (pc = Returned NEW \<and> other = Returned NEW)"
      by (auto simp: no_two_new_def split: if_splits)
    from admit_step_held(1,2)[OF h assms(3,4)] h n True show ?thesis
      by (auto simp: no_two_new_def)
  next
    case False
    show ?thesis
    proof (cases "pc' = Returned NEW")
      case True
      with False assms(4) have "lease_held r' ?key t0"
        using admit_step_new(1)[of tid t pc r r' t0] assms(2) by auto
      with True False show ?thesis by (auto simp: no_two_new_def)
    next
      case False
      with \<open>\<not> (pc = Returned NEW \<or> other = Returned NEW)\<close> show ?thesis
        by (auto simp: no_two_new_def)
    qed
  qed
  show "pc = pc1 \<Longrightarrow> no_two_new ?key t0 (pc', pc2, r')"
    using step[of True pc2] assms(1) by simp
  show "pc = pc2 \<Longrightarrow> no_two_new ?key t0 (pc1, pc', r')"
    using step[of False pc1] assms(1) by simp
qed

lemma run_admits_no_two_new:
  assumes "within_lease t0 sched" and "no_two_new (''txn:'' @ tid) t0 s"
  shows "no_two_new (''txn:'' @ tid) t0 (run_admits tid sched s)"
  using assms
proof (induction sched arbitrary: s)
  case Nil
  then show ?case by simp
next
  case (Cons x xs)
  obtain who t where x: "x = (who, t)" by (cases x)
  obtain pc1 pc2 r where s: "s = (pc1, pc2, r)" by (cases s)
  from Cons.prems(1) have t: "t0 \<le> t" "t < t0 + InProgressExpiry" and rest: "within_lease t0 xs"
    by (simp_all add: within_lease_def x)
  show ?case
  proof (cases who)
    case True
    obtain pc' r' where st: "admit_step tid t pc2 r = (pc', r')" by (cases "admit_step tid t pc2 r")
    from no_two_new_step(2)[OF Cons.prems(2)[unfolded s] t st]
    have "no_two_new (''txn:'' @ tid) t0 (pc1, pc', r')" by simp
    from Cons.IH[OF rest this] show ?thesis by (simp add: x s True st)
  next
    case False
    obtain pc' r' where st: "admit_step tid t pc1 r = (pc', r')" by (cases "admit_step tid t pc1 r")
    from no_two_new_step(1)[OF Cons.prems(2)[unfolded s] t st]
    have "no_two_new (''txn:'' @ tid) t0 (pc', pc2, r')" by simp
    from Cons.IH[OF rest this] show ?thesis by (simp add: x s False st)
  qed
qed

lemma one_new_sym:
  "one_new key t0 (pc1, pc2, r) = one_new key t0 (pc2, pc1, r)"
  by (auto simp: one_new_def)

lemma one_new_step1:
  assumes "one_new (''txn:'' @ tid) t0 (pc, other, r)"
    and "t0 \<le> t" and "t < t0 + InProgressExpiry"
    and "admit_step tid t pc r = (pc', r')"
  shows "one_new (''txn:'' @ tid) t0 (pc', other, r')"
proof -
  let ?key = "''txn:'' @ tid"
  from assms(1) have f: "fault r = None" by (simp add: one_new_def)
  have f': "fault r' = None" using admit_step_fault[OF assms(4)] f by simp
  from assms(1) consider
      (A) "pending pc" "pending other" "live r t0 ?key = None"
    | (B) "pc = Returned NEW" "pending other" "lease_held r ?key t0"
    | (C) "pending pc" "other = Returned NEW" "lease_held r ?key t0"
    | (D) "pc = Returned NEW" "other = Returned DUPLICATE_IN_PROGRESS"
    | (E) "pc = Returned DUPLICATE_IN_PROGRESS" "other = Returned NEW"
    by (auto simp: one_new_def)
  then show ?thesis
  proof cases
    case A
    from dead_later[OF A(3) assms(2)] have d: "live r t ?key = None" .
    show ?thesis
    proof (cases "pc = AtGet")
      case True
      from admit_step_dead(2)[OF f d assms(4) A(1) True] A f show ?thesis
        by (simp add: one_new_def pending_def)
    next
      case False
      with A(1) have s: "pc = AtSetNX" by (simp add: pending_def)
      from admit_step_dead(3)[OF f d assms(4) A(1) s] have n: "pc' = Returned NEW" .
      have "pc \<noteq> Returned NEW" using s by simp
      from admit_step_new(1)[OF assms(4)[unfolded n] this assms(2)]
      have "lease_held r' ?key t0" .
      with n A(2) f' show ?thesis by (simp add: one_new_def)
    qed
  next
    case B
    with assms(4) have "pc' = pc" "r' = r" by (simp_all add: admit_step_returned)
    with assms(1) show ?thesis by simp
  next
    case C
    from admit_step_held(1)[OF C(3) assms(3,4)] have r: "r' = r" .
    show ?thesis
    proof (cases "pc = AtGet")
      case True
      from admit_step_held(4)[OF C(3) assms(3,4) f True] C f r show ?thesis
        by (simp add: one_new_def pending_def)
    next
      case False
      with C(1) have s: "pc = AtSetNX" by (simp add: pending_def)
      from admit_step_held(3)[OF C(3) assms(3,4) f s] C f r show ?thesis
        by (simp add: one_new_def)
    qed
  next
    case D
    with assms(4) have "pc' = pc" "r' = r" by (simp_all add: admit_step_returned)
    with assms(1) show ?thesis by simp
  next
    case E
    with assms(4) have "pc' = pc" "r' = r" by (simp_all add: admit_step_returned)
    with assms(1) show ?thesis by simp
  qed
qed

lemma run_admits_one_new:
  assumes "within_lease t0 sched" and "one_new (''txn:'' @ tid) t0 s"
  shows "one_new (''txn:'' @ tid) t0 (run_admits tid sched s)"
  using assms
proof (induction sched arbitrary: s)
  case Nil
  then show ?case by simp
next
  case (Cons x xs)
  obtain who t where x: "x = (who, t)" by (cases x)
  obtain pc1 pc2 r where s: "s = (pc1, pc2, r)" by (cases s)
  from Cons.prems(1) have t: "t0 \<le> t" "t < t0 + InProgressExpiry" and rest: "within_lease t0 xs"
    by (simp_all add: within_lease_def x)
  show ?case
  proof (cases who)
    case True
    obtain pc' r' where st: "admit_step tid t pc2 r = (pc', r')" by (cases "admit_step tid t pc2 r")
    from Cons.prems(2) have "one_new (''txn:'' @ tid) t0 (pc2, pc1, r)"
      unfolding s by (subst one_new_sym)
    from one_new_step1[OF this t st]
    have "one_new (''txn:'' @ tid) t0 (pc1, pc', r')" by (subst one_new_sym)
    from Cons.IH[OF rest this] show ?thesis by (simp add: x s True st)
  next
    case False
    obtain pc' r' where st: "admit_step tid t pc1 r = (pc', r')" by (cases "admit_step tid t pc1 r")
    from one_new_step1[OF Cons.prems(2)[unfolded s] t st]
    have "one_new (''txn:'' @ tid) t0 (pc', pc2, r')" .
    from Cons.IH[OF rest this] show ?thesis by (simp add: x s False st)
  qed
qed

lemma admit_steps_refine:
  "run_admits tid [(False, now), (False, now)] (AtGet, pc2, r) =
     (Returned (fst (CheckOrSetInProgress r now tid)), pc2, snd (CheckOrSetInProgress r now tid))"
  by (auto simp: Let_def admit_step_def CheckOrSetInProgress_def client_SetNX_def
      split: option.splits)

lemma admit_step_classified:
  assumes "fault r = None" and "classified pc" and "admit_step tid t pc r = (pc', r')"
  shows "classified pc'"
  using assms
  by (auto simp: Let_def classified_def admit_step_def client_Get_def client_SetNX_def NEW_def
      DUPLICATE_IN_PROGRESS_def DUPLICATE_COMPLETED_def
      split: admit_pc.splits option.splits if_splits)

lemma run_admits_classified:
  assumes "fault r = None" and "classified pc1" and "classified pc2"
    and "run_admits tid sched (pc1, pc2, r) = (q1, q2, r')"
  shows "classified q1 \<and> classified q2"
  using assms
proof (induction sched arbitrary: pc1 pc2 r)
  case Nil
  then show ?case by simp
next
  case (Cons x xs)
  obtain who t where x: "x = (who, t)" by (cases x)
  show ?case
  proof (cases who)
    case True
    obtain pc' r1 where st: "admit_step tid t pc2 r = (pc', r1)" by (cases "admit_step tid t pc2 r")
    from Cons.prems(4) have run: "run_admits tid xs (pc1, pc', r1) = (q1, q2, r')"
      by (simp add: x True st)
    have f: "fault r1 = None" using admit_step_fault[OF st] Cons.prems(1) by simp
    from Cons.IH[OF f Cons.prems(2) admit_step_classified[OF Cons.prems(1,3) st] run]
    show ?thesis .
  next
    case False
    obtain pc' r1 where st: "admit_step tid t pc1 r = (pc', r1)" by (cases "admit_step tid t pc1 r")
    from Cons.prems(4) have run: "run_admits tid xs (pc', pc2, r1) = (q1, q2, r')"
      by (simp add: x False st)
    have f: "fault r1 = None" using admit_step_fault[OF st] Cons.prems(1) by simp
    from Cons.IH[OF f admit_step_classified[OF Cons.prems(1,2) st] Cons.prems(3) run]
    show ?thesis .
  qed
qed

text \<open>
  C9, as amended. Two calls of \<^verbatim>\<open>CheckOrSetInProgress\<close> for the same transaction id run
  concurrently, their Redis commands interleaved in any order, each command atomic, all
  of them within one lease period (10 s). Then the two calls never both return NEW.
  With a store that can be reached, every answer is NEW, DUPLICATE_IN_PROGRESS or
  DUPLICATE_COMPLETED; if moreover the store holds no live record of the id when the
  period starts and both calls have returned, exactly one has returned NEW and the
  other DUPLICATE_IN_PROGRESS. (The two commands of one call, run in a row, are the
  function \<^verbatim>\<open>CheckOrSetInProgress\<close>.)
\<close>

theorem concurrent_admits_one_new:
  assumes "within_lease t0 sched"
    and "run_admits tid sched (AtGet, AtGet, r) = (pc1, pc2, r')"
  shows "\<not> (pc1 = Returned NEW \<and> pc2 = Returned NEW)
       \<and> (fault r = None \<longrightarrow> classified pc1 \<and> classified pc2)
       \<and> (fault r = None \<and> live r t0 (''txn:'' @ tid) = None
            \<and> \<not> pending pc1 \<and> \<not> pending pc2 \<longrightarrow>
            (pc1 = Returned NEW \<and> pc2 = Returned DUPLICATE_IN_PROGRESS)
            \<or> (pc1 = Returned DUPLICATE_IN_PROGRESS \<and> pc2 = Returned NEW))
       \<and> run_admits tid [(False, now), (False, now)] (AtGet, AtGet, r) =
           (Returned (fst (CheckOrSetInProgress r now tid)), AtGet,
            snd (CheckOrSetInProgress r now tid))"
proof (intro conjI impI)
  have "no_two_new (''txn:'' @ tid) t0 (AtGet, AtGet, r)"
    by (simp add: no_two_new_def)
  from run_admits_no_two_new[OF assms(1) this] assms(2)
  show "\<not> (pc1 = Returned NEW \<and> pc2 = Returned NEW)"
    by (simp add: no_two_new_def)
next
  assume "fault r = None"
  from run_admits_classified[OF this _ _ assms(2)]
  show "classified pc1" and "classified pc2" by (simp_all add: classified_def)
next
  assume h: "fault r = None \<and> live r t0 (''txn:'' @ tid) = None
            \<and> \<not> pending pc1 \<and> \<not> pending pc2"
  then have "one_new (''txn:'' @ tid) t0 (AtGet, AtGet, r)"
    by (simp add: one_new_def pending_def)
  from run_admits_one_new[OF assms(1) this] assms(2)
  have "one_new (''txn:'' @ tid) t0 (pc1, pc2, r')" by simp
  with h show "(pc1 = Returned NEW \<and> pc2 = Returned DUPLICATE_IN_PROGRESS)
            \<or> (pc1 = Returned DUPLICATE_IN_PROGRESS \<and> pc2 = Returned NEW)"
    by (auto simp: one_new_def pending_def)
next
  show "run_admits tid [(False, now), (False, now)] (AtGet, AtGet, r) =
           (Returned (fst (CheckOrSetInProgress r now tid)), AtGet,
            snd (CheckOrSetInProgress r now tid))"
    by (rule admit_steps_refine)
qed

lemmas admit_eval =
  admit_step_def client_Get_def client_SetNX_def live_def Let_def NEW_def
  DUPLICATE_IN_PROGRESS_def DUPLICATE_COMPLETED_def StatusInProgress_def StatusCompleted_def
  InProgressExpiry_def Second_def Millisecond_def

theorem concurrent_admits_one_new_witness:
  "(let fresh = \<lparr>entries = Map.empty, fault = None\<rparr>;
        sched = [(False, Second), (True, Second + 1), (True, Second + 2), (False, Second + 3)]
    in within_lease Second sched
     \<and> fault fresh = None \<and> live fresh Second ''txn:T1'' = None
     \<and> run_admits ''T1'' sched (AtGet, AtGet, fresh) =
         (Returned DUPLICATE_IN_PROGRESS, Returned NEW,
          \<lparr>entries = [''txn:T1'' \<mapsto> (''IN_PROGRESS'', Second + 2 + 10 * Second)],
           fault = None\<rparr>)
     \<and> \<not> pending (Returned DUPLICATE_IN_PROGRESS) \<and> \<not> pending (Returned NEW)
     \<and> classified (Returned DUPLICATE_IN_PROGRESS) \<and> classified (Returned NEW))"
proof -
  define fresh where "fresh = \<lparr>entries = Map.empty, fault = None\<rparr>"
  define sched where
    "sched = [(False, Second), (True, Second + 1), (True, Second + 2), (False, Second + 3)]"
  have w: "within_lease Second sched"
    by (simp add: within_lease_def sched_def InProgressExpiry_def Second_def Millisecond_def)
  have run: "run_admits ''T1'' sched (AtGet, AtGet, fresh) =
         (Returned DUPLICATE_IN_PROGRESS, Returned NEW,
          \<lparr>entries = [''txn:T1'' \<mapsto> (''IN_PROGRESS'', Second + 2 + 10 * Second)],
           fault = None\<rparr>)"
    by (simp add: sched_def fresh_def admit_eval)
  have f: "fault fresh = None" and l: "live fresh Second ''txn:T1'' = None"
    by (simp_all add: fresh_def live_def)
  from concurrent_admits_one_new[OF w run] f
  have c: "classified (Returned DUPLICATE_IN_PROGRESS) \<and> classified (Returned NEW)" by blast
  have p: "\<not> pending (Returned DUPLICATE_IN_PROGRESS) \<and> \<not> pending (Returned NEW)"
    by (simp add: pending_def)
  show ?thesis
    unfolding Let_def fresh_def[symmetric] sched_def[symmetric]
    using w f l run c p by blast
qed

text \<open>
  Without the amendment the property fails in both directions. With the id already COMPLETED in the store,
  two concurrent calls both return DUPLICATE_COMPLETED and none returns NEW. And when
  the second call's SETNX comes more than a lease period after the first call's, the
  lease has expired and both calls return NEW, although the calls overlap.
\<close>

theorem concurrent_admits_counterexample:
  "run_admits ''T1'' [(False, Second), (True, Second)]
     (AtGet, AtGet,
      \<lparr>entries = [''txn:T1'' \<mapsto> (''COMPLETED'', 3600 * Second)], fault = None\<rparr>)
   = (Returned DUPLICATE_COMPLETED, Returned DUPLICATE_COMPLETED,
      \<lparr>entries = [''txn:T1'' \<mapsto> (''COMPLETED'', 3600 * Second)], fault = None\<rparr>)
   \<and> DUPLICATE_COMPLETED \<noteq> NEW
   \<and> run_admits ''T1'' [(True, Second), (False, Second), (False, Second), (True, 12 * Second)]
       (AtGet, AtGet, \<lparr>entries = Map.empty, fault = None\<rparr>)
   = (Returned NEW, Returned NEW,
      \<lparr>entries = [''txn:T1'' \<mapsto> (''IN_PROGRESS'', 22 * Second)], fault = None\<rparr>)"
  by (simp add: admit_eval)

end
